theory Spec2Isabelle
  imports Main "HOL-Library.Word" "HOL-Library.Char_ord" "HOL-Library.List_Lexorder"
begin

unbundle bit_operations_syntax

section \<open>FluxDB: data model\<close>

text \<open>
  A shallow embedding of the FluxDB index manager (\<^verbatim>\<open>fluxdb/indexing.go\<close>), the
  contract-state and table-scope tablets and the \<^verbatim>\<open>prepareRead\<close> helper of the
  query front-end. Go's \<^verbatim>\<open>uint32\<close>, \<^verbatim>\<open>uint64\<close> and \<^verbatim>\<open>byte\<close> are words, Go's
  \<^verbatim>\<open>int\<close> is \<open>int\<close> (no claim reaches its 64-bit bound), a Go map is a partial
  function, and every \<^verbatim>\<open>error\<close> return is the \<open>Inl\<close> side of a sum.
\<close>

type_synonym byte = "8 word"
type_synonym u32 = "32 word"
type_synonym u64 = "64 word"

datatype error =
    ErrMsg string
  | Wrap string error
  | Panic string
  | ErrSyntax
  | ErrRange
  | ErrNotFound
  | AppBlockNumHigherThanLIBError u32 u32
  | AppBlockNumHigherThanHeadBlockError u32 u32 u32

text \<open>\<^verbatim>\<open>type TableIndex struct { AtBlockNum, Squelched uint32; Map map[string]uint32 }\<close>\<close>

record TableIndex =
  AtBlockNum :: u32
  Squelched :: u32
  Map :: "string \<rightharpoonup> u32"

definition NewTableIndex :: TableIndex where
  "NewTableIndex = \<lparr>AtBlockNum = 0, Squelched = 0, Map = Map.empty\<rparr>"

text \<open>\<^verbatim>\<open>type indexCache struct\<close>: three Go maps keyed by table key.\<close>

record indexCache =
  lastIndexes :: "string \<rightharpoonup> TableIndex"
  lastCounters :: "string \<rightharpoonup> int"
  scheduleIndexing :: "string \<rightharpoonup> u32"

definition newIndexCache :: indexCache where
  "newIndexCache = \<lparr>lastIndexes = Map.empty, lastCounters = Map.empty, scheduleIndexing = Map.empty\<rparr>"

definition GetIndex :: "indexCache \<Rightarrow> string \<Rightarrow> TableIndex option" where
  "GetIndex t table = lastIndexes t table"

definition CacheIndex :: "indexCache \<Rightarrow> string \<Rightarrow> TableIndex \<Rightarrow> indexCache" where
  "CacheIndex t table tableIndex = t\<lparr>lastIndexes := (lastIndexes t)(table \<mapsto> tableIndex)\<rparr>"

text \<open>Reading a missing key of a Go \<^verbatim>\<open>map[string]int\<close> gives 0.\<close>

definition GetCount :: "indexCache \<Rightarrow> string \<Rightarrow> int" where
  "GetCount t table = (case lastCounters t table of None \<Rightarrow> 0 | Some c \<Rightarrow> c)"

definition IncCount :: "indexCache \<Rightarrow> string \<Rightarrow> indexCache" where
  "IncCount t table = t\<lparr>lastCounters := (lastCounters t)(table \<mapsto> GetCount t table + 1)\<rparr>"

definition ResetCounter :: "indexCache \<Rightarrow> string \<Rightarrow> indexCache" where
  "ResetCounter t table = t\<lparr>lastCounters := (lastCounters t)(table \<mapsto> 0)\<rparr>"

definition ScheduleIndex :: "indexCache \<Rightarrow> string \<Rightarrow> u32 \<Rightarrow> indexCache" where
  "ScheduleIndex t table blockNum = t\<lparr>scheduleIndexing := (scheduleIndexing t)(table \<mapsto> blockNum)\<rparr>"

text \<open>\<^verbatim>\<open>len(m)\<close> of a Go map: the number of keys.\<close>

definition len_map :: "('k \<rightharpoonup> 'v) \<Rightarrow> int" where
  "len_map m = int (card (dom m))"

text \<open>
  \<^verbatim>\<open>indexCache.shouldTriggerIndexing\<close>, branch by branch: the counter test, the
  missing snapshot, then the 50 000 and the 100 000 thresholds in the source's order.
\<close>

definition shouldTriggerIndexing :: "indexCache \<Rightarrow> string \<Rightarrow> bool" where
  "shouldTriggerIndexing t table =
     (let mutatedRowsCount = GetCount t table in
      if mutatedRowsCount < 1000 then False
      else (case lastIndexes t table of
              None \<Rightarrow> True
            | Some lastIndex \<Rightarrow>
                (let tableRowsCount = len_map (Map lastIndex) in
                 if tableRowsCount > 50000 \<and> mutatedRowsCount < 5000 then False
                 else if tableRowsCount > 100000 \<and> mutatedRowsCount < 10000 then False
                 else True)))"

section \<open>Query front-end: prepareRead\<close>

text \<open>
  \<^verbatim>\<open>bstream.BlockRef\<close> (an id and a 64-bit number) and the part of a write request that
  \<^verbatim>\<open>prepareRead\<close> reads. The database calls of \<^verbatim>\<open>prepareRead\<close>
  (\<^verbatim>\<open>FetchLastWrittenBlock\<close>, \<^verbatim>\<open>HeadBlock\<close>, \<^verbatim>\<open>SpeculativeWritesFetcher\<close>) are the
  environment: the record \<open>read_db\<close> holds what they return.
\<close>

record BlockRef =
  ref_ID :: string
  ref_Num :: u64

record WriteRequest =
  BlockNum :: u32
  BlockID :: "byte list"

record read_db =
  FetchLastWrittenBlock :: "error + BlockRef"
  HeadBlock :: BlockRef
  SpeculativeWritesFetcher :: "string \<Rightarrow> u32 \<Rightarrow> WriteRequest list"

text \<open>The five named results of \<^verbatim>\<open>prepareRead\<close>; Go returns all of them, also on error.\<close>

record prepared =
  chosenBlockNum :: u32
  lastWrittenBlockID :: string
  upToBlockID :: string
  speculativeWrites :: "WriteRequest list"
  err :: "error option"

definition zero_prepared :: prepared where
  "zero_prepared = \<lparr>chosenBlockNum = 0, lastWrittenBlockID = [], upToBlockID = [],
     speculativeWrites = [], err = None\<rparr>"

definition hexdigit :: "nat \<Rightarrow> char" where
  "hexdigit d = ''0123456789abcdef'' ! d"

text \<open>\<^verbatim>\<open>hex.EncodeToString\<close>: two lowercase hexadecimal digits per byte.\<close>

definition hex_EncodeToString :: "byte list \<Rightarrow> string" where
  "hex_EncodeToString bs = concat (map (\<lambda>b. [hexdigit (unat b div 16), hexdigit (unat b mod 16)]) bs)"

text \<open>
  \<^verbatim>\<open>Server.prepareRead\<close> (\<^verbatim>\<open>fluxdb/grpc/read.go\<close>) and \<^verbatim>\<open>EOSServer.prepareRead\<close>
  (\<^verbatim>\<open>fluxdb/server/read.go\<close>) have the same body. In the irreversible-only branch the
  source tests the named result \<^verbatim>\<open>chosenBlockNum\<close>, which still holds its zero value
  there: the model keeps that test as written.
\<close>

definition prepareRead :: "read_db \<Rightarrow> u32 \<Rightarrow> bool \<Rightarrow> prepared" where
  "prepareRead db blockNum irreversibleOnly =
     (case FetchLastWrittenBlock db of
        Inl e \<Rightarrow> zero_prepared\<lparr>err := Some (Wrap ''unable to retrieve last written block id'' e)\<rparr>
      | Inr lastWrittenBlock \<Rightarrow>
          (let lastWrittenBlockNum = (ucast (ref_Num lastWrittenBlock) :: u32) in
           if irreversibleOnly then
             (if blockNum > lastWrittenBlockNum
              then zero_prepared\<lparr>err := Some (AppBlockNumHigherThanLIBError blockNum lastWrittenBlockNum)\<rparr>
              else (if chosenBlockNum zero_prepared = 0
                    then zero_prepared\<lparr>chosenBlockNum := lastWrittenBlockNum\<rparr>
                    else zero_prepared))
           else
             (let headBlock = HeadBlock db;
                  headBlockNum = (ucast (ref_Num headBlock) :: u32);
                  chosen = (if blockNum = 0 then headBlockNum else blockNum) in
              if chosen > headBlockNum
              then zero_prepared\<lparr>chosenBlockNum := chosen,
                     err := Some (AppBlockNumHigherThanHeadBlockError chosen headBlockNum lastWrittenBlockNum)\<rparr>
              else
                (let sw = SpeculativeWritesFetcher db (ref_ID headBlock) chosen in
                 zero_prepared\<lparr>chosenBlockNum := chosen,
                   upToBlockID := (if length sw \<ge> 1 then hex_EncodeToString (BlockID (last sw)) else []),
                   speculativeWrites := sw\<rparr>))))"

section \<open>Byte order and formatting helpers\<close>

text \<open>
  \<^verbatim>\<open>fmt.Sprintf("%0Nx", v)\<close> for a value below \<open>16 ^ N\<close> (a byte with \<open>N = 2\<close>, a
  \<^verbatim>\<open>uint32\<close> with \<open>N = 8\<close>, a \<^verbatim>\<open>uint64\<close> with \<open>N = 16\<close>): exactly \<open>N\<close> lowercase
  hexadecimal digits, most significant first.
\<close>

fun fmt_hex :: "nat \<Rightarrow> nat \<Rightarrow> string" where
  "fmt_hex 0 v = []"
| "fmt_hex (Suc n) v = fmt_hex n (v div 16) @ [hexdigit (v mod 16)]"

text \<open>
  Modelled from the spec: \<^verbatim>\<open>HexBlockNum\<close> and \<^verbatim>\<open>HexRevBlockNum\<close> are not in the
  sources. The spec gives the row key's block number as "lowercase 8-digit hex of
  \<^verbatim>\<open>block_num\<close>" and the index key's as \<^verbatim>\<open>fmt("%08x", 0xFFFFFFFF - block_num)\<close>.
\<close>

definition HexBlockNum :: "u32 \<Rightarrow> string" where
  "HexBlockNum blockNum = fmt_hex 8 (unat blockNum)"

definition HexRevBlockNum :: "u32 \<Rightarrow> string" where
  "HexRevBlockNum blockNum = fmt_hex 8 (unat (0xFFFFFFFF - blockNum))"

text \<open>
  \<^verbatim>\<open>binary.BigEndian\<close>: \<^verbatim>\<open>PutUint64\<close>/\<^verbatim>\<open>PutUint32\<close> overwrite the first 8 or 4 bytes of
  the slice they are given and \<^verbatim>\<open>Uint64\<close>/\<^verbatim>\<open>Uint32\<close> read them; all four panic on a
  shorter slice.
\<close>

definition be64 :: "u64 \<Rightarrow> byte list" where
  "be64 v = [ucast (drop_bit 56 v), ucast (drop_bit 48 v), ucast (drop_bit 40 v),
             ucast (drop_bit 32 v), ucast (drop_bit 24 v), ucast (drop_bit 16 v),
             ucast (drop_bit 8 v), ucast v]"

definition be32 :: "u32 \<Rightarrow> byte list" where
  "be32 v = [ucast (drop_bit 24 v), ucast (drop_bit 16 v), ucast (drop_bit 8 v), ucast v]"

definition le32 :: "u32 \<Rightarrow> byte list" where
  "le32 v = [ucast v, ucast (drop_bit 8 v), ucast (drop_bit 16 v), ucast (drop_bit 24 v)]"

definition BigEndian_PutUint64 :: "byte list \<Rightarrow> u64 \<Rightarrow> error + byte list" where
  "BigEndian_PutUint64 b v =
     (if length b < 8 then Inl (Panic ''index out of range'') else Inr (be64 v @ drop 8 b))"

definition BigEndian_PutUint32 :: "byte list \<Rightarrow> u32 \<Rightarrow> error + byte list" where
  "BigEndian_PutUint32 b v =
     (if length b < 4 then Inl (Panic ''index out of range'') else Inr (be32 v @ drop 4 b))"

definition BigEndian_Uint64 :: "byte list \<Rightarrow> error + u64" where
  "BigEndian_Uint64 b =
     (if length b < 8 then Inl (Panic ''index out of range'')
      else Inr (ucast (b ! 7) OR push_bit 8 (ucast (b ! 6)) OR push_bit 16 (ucast (b ! 5))
                OR push_bit 24 (ucast (b ! 4)) OR push_bit 32 (ucast (b ! 3))
                OR push_bit 40 (ucast (b ! 2)) OR push_bit 48 (ucast (b ! 1))
                OR push_bit 56 (ucast (b ! 0))))"

definition BigEndian_Uint32 :: "byte list \<Rightarrow> error + u32" where
  "BigEndian_Uint32 b =
     (if length b < 4 then Inl (Panic ''index out of range'')
      else Inr (ucast (b ! 3) OR push_bit 8 (ucast (b ! 2)) OR push_bit 16 (ucast (b ! 1))
                OR push_bit 24 (ucast (b ! 0))))"

text \<open>Go's \<^verbatim>\<open>copy(dst, src)\<close>: the first \<open>min (len dst) (len src)\<close> bytes of \<open>dst\<close> are overwritten.\<close>

definition copy_bytes :: "byte list \<Rightarrow> byte list \<Rightarrow> byte list" where
  "copy_bytes dst src = (let n = min (length dst) (length src) in take n src @ drop n dst)"

section \<open>Tablets: contract state and contract table scope\<close>

text \<open>
  \<^verbatim>\<open>pbfluxdb.TabletRow\<close> as the two tablets fill it. A \<^verbatim>\<open>nil\<close> payload and an empty one
  are both the empty list: the sources only take their length.
\<close>

record TabletRow =
  Collection :: string
  TabletKey :: string
  BlockNumKey :: string
  PrimKey :: string
  Payload :: "byte list"

text \<open>
  The EOS name codec (\<^verbatim>\<open>NA\<close>, a wrapper of eos-go's \<^verbatim>\<open>StringToName\<close>, and
  \<^verbatim>\<open>eos.NameToString\<close>) belongs to an external library and
  \<^verbatim>\<open>ExplodeTabletRowKey\<close> is not in the sources: the tablet functions take them as
  parameters.
\<close>

type_synonym explode_fn = "string \<Rightarrow> error + (string \<times> string \<times> string \<times> string)"

definition cstPrefix :: string where
  "cstPrefix = ''cst''"

definition ctblsPrefix :: string where
  "ctblsPrefix = ''ctbls''"

text \<open>\<^verbatim>\<open>ContractStateTablet.NewRow\<close>; the tablet \<open>t\<close> is its key string.\<close>

definition ContractStateTablet_NewRow ::
  "(string \<Rightarrow> u64) \<Rightarrow> string \<Rightarrow> u32 \<Rightarrow> string \<Rightarrow> string \<Rightarrow> byte list \<Rightarrow> bool \<Rightarrow> error + TabletRow" where
  "ContractStateTablet_NewRow NA t blockNum primaryKey payer data isDeletion =
     (let row = \<lparr>Collection = cstPrefix, TabletKey = t, BlockNumKey = HexBlockNum blockNum,
                 PrimKey = primaryKey, Payload = []\<rparr> in
      if \<not> isDeletion then
        (case BigEndian_PutUint64 (replicate (length data + 8) 0) (NA payer) of
           Inl e \<Rightarrow> Inl e
         | Inr p \<Rightarrow> Inr (row\<lparr>Payload := take 8 p @ copy_bytes (drop 8 p) data\<rparr>))
      else Inr row)"

text \<open>\<^verbatim>\<open>ContractStateTablet.NewRowFromKV\<close>.\<close>

definition ContractStateTablet_NewRowFromKV :: "explode_fn \<Rightarrow> string \<Rightarrow> byte list \<Rightarrow> error + TabletRow" where
  "ContractStateTablet_NewRowFromKV ExplodeTabletRowKey key val =
     (if length val < 8
      then Inl (ErrMsg ''contract state tablet row value should have at least 8 bytes (payer)'')
      else (case ExplodeTabletRowKey key of
              Inl e \<Rightarrow> Inl (Wrap ''unable to explode tablet row key'' e)
            | Inr (_, tabletKey, blockNumKey, primaryKey) \<Rightarrow>
                Inr \<lparr>Collection = cstPrefix, TabletKey = tabletKey, BlockNumKey = blockNumKey,
                     PrimKey = primaryKey, Payload = val\<rparr>))"

text \<open>\<^verbatim>\<open>ContractStateRow.Payer\<close> and \<^verbatim>\<open>ContractStateRow.Data\<close>; both panic on a payload under 8 bytes.\<close>

definition ContractStateRow_Payer :: "(u64 \<Rightarrow> string) \<Rightarrow> TabletRow \<Rightarrow> error + string" where
  "ContractStateRow_Payer NameToString r =
     (case BigEndian_Uint64 (Payload r) of Inl e \<Rightarrow> Inl e | Inr v \<Rightarrow> Inr (NameToString v))"


text \<open>\<^verbatim>\<open>ContractTableScopeTablet.NewRow\<close>.\<close>

definition ContractTableScopeTablet_NewRow ::
  "(string \<Rightarrow> u64) \<Rightarrow> string \<Rightarrow> u32 \<Rightarrow> string \<Rightarrow> string \<Rightarrow> bool \<Rightarrow> error + TabletRow" where
  "ContractTableScopeTablet_NewRow NA t blockNum scope payer isDeletion =
     (let row = \<lparr>Collection = ctblsPrefix, TabletKey = t, BlockNumKey = HexBlockNum blockNum,
                 PrimKey = scope, Payload = []\<rparr> in
      if \<not> isDeletion then
        (case BigEndian_PutUint64 (replicate 8 0) (NA payer) of
           Inl e \<Rightarrow> Inl e
         | Inr p \<Rightarrow> Inr (row\<lparr>Payload := p\<rparr>))
      else Inr row)"

text \<open>
  \<^verbatim>\<open>ContractTableScopeTablet.NewRowFromKV\<close>. The guard is the source's:
  \<^verbatim>\<open>if len(value) == 0 || len(value) == 8 { return nil, errors.New(...) }\<close>.
\<close>

definition ContractTableScopeTablet_NewRowFromKV :: "explode_fn \<Rightarrow> string \<Rightarrow> byte list \<Rightarrow> error + TabletRow" where
  "ContractTableScopeTablet_NewRowFromKV ExplodeTabletRowKey key val =
     (if length val = 0 \<or> length val = 8
      then Inl (ErrMsg ''contract table scope row value should have at 0 byte (deletion) or 8 bytes (payer)'')
      else (case ExplodeTabletRowKey key of
              Inl e \<Rightarrow> Inl (Wrap ''unable to explode tablet row key'' e)
            | Inr (_, tabletKey, blockNumKey, primaryKey) \<Rightarrow>
                Inr \<lparr>Collection = ctblsPrefix, TabletKey = tabletKey, BlockNumKey = blockNumKey,
                     PrimKey = primaryKey, Payload = val\<rparr>))"

section \<open>Table index serialization\<close>

text \<open>\<^verbatim>\<open>strings.HasPrefix\<close>, \<^verbatim>\<open>strings.Split\<close> on a one-character separator.\<close>

definition HasPrefix :: "string \<Rightarrow> string \<Rightarrow> bool" where
  "HasPrefix s p = (take (length p) s = p)"

fun Split :: "string \<Rightarrow> char \<Rightarrow> string list" where
  "Split [] sep = [[]]"
| "Split (c # cs) sep =
     (if c = sep then [] # Split cs sep
      else (case Split cs sep of [] \<Rightarrow> [[c]] | h # t \<Rightarrow> (c # h) # t))"

text \<open>
  \<^verbatim>\<open>strconv.ParseUint(s, 16, bitSize)\<close>: the empty string and any character that is not
  a hexadecimal digit (either case; no sign, prefix or underscore in base 16) are syntax
  errors; a value that does not fit \<open>bitSize\<close> bits is a range error, reported at the
  digit where it shows, as the library's loop does (\<open>cutoff = 2^64 / 16\<close>).
\<close>

definition hexval :: "char \<Rightarrow> nat option" where
  "hexval c =
     (let n = of_char c :: nat in
      if 48 \<le> n \<and> n \<le> 57 then Some (n - 48)
      else if 97 \<le> n \<and> n \<le> 102 then Some (n - 87)
      else if 65 \<le> n \<and> n \<le> 70 then Some (n - 55)
      else None)"

fun parse_digits :: "nat \<Rightarrow> nat \<Rightarrow> string \<Rightarrow> error + nat" where
  "parse_digits bitSize n [] = Inr n"
| "parse_digits bitSize n (c # cs) =
     (case hexval c of
        None \<Rightarrow> Inl ErrSyntax
      | Some d \<Rightarrow>
          if n \<ge> 2 ^ 60 then Inl ErrRange
          else (let n1 = n * 16 + d in
                if n1 > 2 ^ bitSize - 1 then Inl ErrRange
                else parse_digits bitSize n1 cs))"

definition ParseUint :: "string \<Rightarrow> nat \<Rightarrow> error + u64" where
  "ParseUint s bitSize =
     (if s = [] then Inl ErrSyntax
      else (case parse_digits bitSize 0 s of Inl e \<Rightarrow> Inl e | Inr n \<Rightarrow> Inr (of_nat n)))"

type_synonym indexPrimaryKeyReader = "byte list \<Rightarrow> error + string"

text \<open>
  A writer is given the slice \<^verbatim>\<open>snapshot[pos:]\<close> and writes into it; the model returns
  the slice as it is after the call.
\<close>

type_synonym indexPrimaryKeyWriter = "string \<Rightarrow> byte list \<Rightarrow> error + byte list"

definition indexPrimaryKeyByteCountByTableKey :: "string \<Rightarrow> nat" where
  "indexPrimaryKeyByteCountByTableKey tableKey =
     (if HasPrefix tableKey ''al:'' then 16
      else if HasPrefix tableKey ''arl:'' then 1
      else if HasPrefix tableKey ''brl'' then 1
      else if HasPrefix tableKey ''ka2:'' then 16
      else if HasPrefix tableKey ''td:'' then 8
      else if HasPrefix tableKey ''ts:'' then 8
      else 0)"

definition oneBytePrimaryKeyReaderFactory :: "string \<Rightarrow> indexPrimaryKeyReader" where
  "oneBytePrimaryKeyReaderFactory tag buffer =
     (if length buffer < 1
      then Inl (ErrMsg (tag @ '' primary key reader: not enough bytes to read''))
      else Inr (fmt_hex 2 (unat (buffer ! 0))))"

definition readOneUint64 :: "byte list \<Rightarrow> error + string" where
  "readOneUint64 buffer =
     (if length buffer < 8 then Inl (ErrMsg ''not enough bytes to read uint64'')
      else (case BigEndian_Uint64 buffer of
              Inl e \<Rightarrow> Inl e
            | Inr v \<Rightarrow> Inr (fmt_hex 16 (unat v))))"

definition oneUint64PrimaryKeyReaderFactory :: "string \<Rightarrow> indexPrimaryKeyReader" where
  "oneUint64PrimaryKeyReaderFactory tag buffer =
     (case readOneUint64 buffer of
        Inl e \<Rightarrow> Inl (Wrap (tag @ '' primary key reader'') e)
      | Inr primaryKey \<Rightarrow> Inr primaryKey)"

definition twoUint64PrimaryKeyReaderFactory :: "string \<Rightarrow> indexPrimaryKeyReader" where
  "twoUint64PrimaryKeyReaderFactory tag buffer =
     (if length buffer < 16
      then Inl (ErrMsg (tag @ '' primary key reader: not enough bytes to read''))
      else (case readOneUint64 buffer of
              Inl e \<Rightarrow> Inl (Wrap (tag @ '' primary key reader, chunk #1'') e)
            | Inr chunk1 \<Rightarrow>
                (case readOneUint64 (drop 8 buffer) of
                   Inl e \<Rightarrow> Inl (Wrap (tag @ '' primary key reader, chunk #2'') e)
                 | Inr chunk2 \<Rightarrow> Inr (chunk1 @ '':'' @ chunk2))))"

definition indexPrimaryKeyReaderByTableKey :: "string \<Rightarrow> indexPrimaryKeyReader option" where
  "indexPrimaryKeyReaderByTableKey tableKey =
     (if HasPrefix tableKey ''al:'' then Some (twoUint64PrimaryKeyReaderFactory ''auth link'')
      else if HasPrefix tableKey ''arl:'' then Some (oneBytePrimaryKeyReaderFactory ''account resource limit'')
      else if HasPrefix tableKey ''brl'' then Some (oneBytePrimaryKeyReaderFactory ''block resource limit'')
      else if HasPrefix tableKey ''ka2:'' then Some (twoUint64PrimaryKeyReaderFactory ''key account'')
      else if HasPrefix tableKey ''td:'' then Some (oneUint64PrimaryKeyReaderFactory ''table data'')
      else if HasPrefix tableKey ''ts:'' then Some (oneUint64PrimaryKeyReaderFactory ''table scope'')
      else None)"

definition oneBytePrimaryKeyWriterFactory :: "string \<Rightarrow> indexPrimaryKeyWriter" where
  "oneBytePrimaryKeyWriterFactory tag primaryKey buffer =
     (case ParseUint primaryKey 8 of
        Inl e \<Rightarrow> Inl (Wrap (tag @ '' primary key writer: unable to transform primary key to byte'') e)
      | Inr v \<Rightarrow>
          (case buffer of
             [] \<Rightarrow> Inl (Panic ''index out of range'')
           | _ # rest \<Rightarrow> Inr ((ucast v :: byte) # rest)))"

definition writeOneUint64 :: "string \<Rightarrow> byte list \<Rightarrow> error + byte list" where
  "writeOneUint64 primaryKey buffer =
     (case ParseUint primaryKey 64 of
        Inl e \<Rightarrow> Inl (Wrap ''unable to transform primary key to uint64'' e)
      | Inr v \<Rightarrow> BigEndian_PutUint64 buffer v)"

definition oneUint64PrimaryKeyWriterFactory :: "string \<Rightarrow> indexPrimaryKeyWriter" where
  "oneUint64PrimaryKeyWriterFactory tag primaryKey buffer =
     (case writeOneUint64 primaryKey buffer of
        Inl e \<Rightarrow> Inl (Wrap (tag @ '' primary key writer'') e)
      | Inr b \<Rightarrow> Inr b)"

definition twoUint64PrimaryKeyWriterFactory :: "string \<Rightarrow> indexPrimaryKeyWriter" where
  "twoUint64PrimaryKeyWriterFactory tag primaryKey buffer =
     (let chunks = Split primaryKey CHR '':'' in
      if length chunks \<noteq> 2
      then Inl (ErrMsg (tag @ '' primary key should have 2 chunks''))
      else (case writeOneUint64 (chunks ! 0) buffer of
              Inl e \<Rightarrow> Inl (Wrap (tag @ '' primary key writer, chunk #1'') e)
            | Inr b1 \<Rightarrow>
                (case writeOneUint64 (chunks ! 1) (drop 8 b1) of
                   Inl e \<Rightarrow> Inl (Wrap (tag @ '' primary key writer, chunk #2'') e)
                 | Inr b2 \<Rightarrow> Inr (take 8 b1 @ b2))))"

definition indexPrimaryKeyWriterByTableKey :: "string \<Rightarrow> indexPrimaryKeyWriter option" where
  "indexPrimaryKeyWriterByTableKey tableKey =
     (if HasPrefix tableKey ''al:'' then Some (twoUint64PrimaryKeyWriterFactory ''auth link'')
      else if HasPrefix tableKey ''arl:'' then Some (oneBytePrimaryKeyWriterFactory ''account resource limit'')
      else if HasPrefix tableKey ''brl'' then Some (oneBytePrimaryKeyWriterFactory ''block resource limit'')
      else if HasPrefix tableKey ''ka2:'' then Some (twoUint64PrimaryKeyWriterFactory ''key account'')
      else if HasPrefix tableKey ''td:'' then Some (oneUint64PrimaryKeyWriterFactory ''table data'')
      else if HasPrefix tableKey ''ts:'' then Some (oneUint64PrimaryKeyWriterFactory ''table scope'')
      else None)"

text \<open>
  Go's \<^verbatim>\<open>range\<close> over a map visits every entry once, in an order the runtime chooses.
  The functions that range over a map take that sequence of entries as an argument;
  \<open>range_of m kvs\<close> says that \<open>kvs\<close> is such a sequence for the map \<open>m\<close>.
\<close>

definition range_of :: "('k \<rightharpoonup> 'v) \<Rightarrow> ('k \<times> 'v) list \<Rightarrow> bool" where
  "range_of m kvs = (distinct (map fst kvs) \<and> map_of kvs = m)"

text \<open>
  Modelled from the spec: the package variable \<^verbatim>\<open>big\<close> that \<^verbatim>\<open>indexing.go\<close> calls
  (\<^verbatim>\<open>big.PutUint32\<close>, \<^verbatim>\<open>big.Uint32\<close>, \<^verbatim>\<open>big.Uint64\<close>) is declared in a file that is not
  in the sources. The spec's persisted layout gives the index blob's block number as
  \<^verbatim>\<open>u32 be block_num\<close>, and the tablets of the same package write their payloads with
  \<^verbatim>\<open>binary.BigEndian\<close>: \<^verbatim>\<open>big\<close> is \<^verbatim>\<open>binary.BigEndian\<close>.
\<close>

definition big_PutUint32 :: "byte list \<Rightarrow> u32 \<Rightarrow> error + byte list" where
  "big_PutUint32 = BigEndian_PutUint32"

definition big_Uint32 :: "byte list \<Rightarrow> error + u32" where
  "big_Uint32 = BigEndian_Uint32"

text \<open>
  The loop of \<^verbatim>\<open>TableIndex.MarshalBinary\<close> over the entries \<open>kvs\<close>, threading the
  position and the buffer. Slicing past the end of the buffer panics.
\<close>

fun marshal_entries ::
  "indexPrimaryKeyWriter \<Rightarrow> nat \<Rightarrow> (string \<times> u32) list \<Rightarrow> nat \<Rightarrow> byte list \<Rightarrow> error + byte list" where
  "marshal_entries primaryKeyWriter primaryKeyByteCount [] pos snapshot = Inr snapshot"
| "marshal_entries primaryKeyWriter primaryKeyByteCount ((primaryKey, blockNum) # rest) pos snapshot =
     (if pos > length snapshot then Inl (Panic ''slice bounds out of range'')
      else (case primaryKeyWriter primaryKey (drop pos snapshot) of
              Inl e \<Rightarrow> Inl (Wrap ''unable to read primary key for table key'' e)
            | Inr written \<Rightarrow>
                (let snapshot1 = take pos snapshot @ written in
                 if pos + primaryKeyByteCount > length snapshot1
                 then Inl (Panic ''slice bounds out of range'')
                 else (case big_PutUint32 (drop (pos + primaryKeyByteCount) snapshot1) blockNum of
                         Inl e \<Rightarrow> Inl e
                       | Inr written2 \<Rightarrow>
                           marshal_entries primaryKeyWriter primaryKeyByteCount rest
                             (pos + (primaryKeyByteCount + 4))
                             (take (pos + primaryKeyByteCount) snapshot1 @ written2)))))"

definition MarshalBinary :: "TableIndex \<Rightarrow> (string \<times> u32) list \<Rightarrow> string \<Rightarrow> error + byte list" where
  "MarshalBinary index kvs tableKey =
     (let primaryKeyByteCount = indexPrimaryKeyByteCountByTableKey tableKey in
      if primaryKeyByteCount = 0
      then Inl (ErrMsg ''unknown primary key byte count for table key'')
      else (case indexPrimaryKeyWriterByTableKey tableKey of
              None \<Rightarrow> Inl (ErrMsg ''unknown primary key writer for table key'')
            | Some primaryKeyWriter \<Rightarrow>
                (let entryByteCount = primaryKeyByteCount + 4;
                     snapshot = replicate (entryByteCount * card (dom (Map index)) + 16) (0 :: byte) in
                 case big_PutUint32 snapshot (Squelched index) of
                   Inl e \<Rightarrow> Inl e
                 | Inr snapshot1 \<Rightarrow>
                     marshal_entries primaryKeyWriter primaryKeyByteCount kvs 16 snapshot1)))"

text \<open>
  The loop of \<^verbatim>\<open>NewTableIndexFromBinary\<close>:
  \<^verbatim>\<open>for pos := 16; pos < byteCount; pos += entryByteCount\<close>.
\<close>

function read_entries ::
  "indexPrimaryKeyReader \<Rightarrow> nat \<Rightarrow> byte list \<Rightarrow> nat \<Rightarrow> (string \<rightharpoonup> u32) \<Rightarrow> error + (string \<rightharpoonup> u32)" where
  "read_entries primaryKeyReader primaryKeyByteCount buffer pos mapping =
     (if pos < length buffer then
        (case primaryKeyReader (drop pos buffer) of
           Inl e \<Rightarrow> Inl (Wrap ''unable to read primary key for table key'' e)
         | Inr primaryKey \<Rightarrow>
             (if pos + primaryKeyByteCount > length buffer
              then Inl (Panic ''slice bounds out of range'')
              else (case big_Uint32 (drop (pos + primaryKeyByteCount) buffer) of
                      Inl e \<Rightarrow> Inl e
                    | Inr blockNum \<Rightarrow>
                        read_entries primaryKeyReader primaryKeyByteCount buffer
                          (pos + (primaryKeyByteCount + 4)) (mapping(primaryKey \<mapsto> blockNum)))))
      else Inr mapping)"
  by pat_completeness auto
termination
  by (relation "measure (\<lambda>(r, c, buffer, pos, m). length buffer - pos)") auto

declare read_entries.simps [simp del]

definition NewTableIndexFromBinary :: "string \<Rightarrow> u32 \<Rightarrow> byte list \<Rightarrow> error + TableIndex" where
  "NewTableIndexFromBinary tableKey atBlockNum buffer =
     (let primaryKeyByteCount = indexPrimaryKeyByteCountByTableKey tableKey in
      if primaryKeyByteCount = 0
      then Inl (ErrMsg ''unknown primary key byte count for table key'')
      else (let entryByteCount = primaryKeyByteCount + 4;
                byteCount = length buffer in
            if int byteCount - 16 < 0 \<or> (int byteCount - 16) mod int entryByteCount \<noteq> 0
            then Inl (ErrMsg ''unable to unmarshal table index: bytes alignment + 16 bytes metadata is off'')
            else (case indexPrimaryKeyReaderByTableKey tableKey of
                    None \<Rightarrow> Inl (ErrMsg ''unknown primary key writer for table key'')
                  | Some primaryKeyReader \<Rightarrow>
                      (case read_entries primaryKeyReader primaryKeyByteCount buffer 16 Map.empty of
                         Inl e \<Rightarrow> Inl e
                       | Inr mapping \<Rightarrow>
                           (case big_Uint32 (take 4 buffer) of
                              Inl e \<Rightarrow> Inl e
                            | Inr squelched \<Rightarrow>
                                Inr \<lparr>AtBlockNum = atBlockNum, Squelched = squelched, Map = mapping\<rparr>)))))"

text \<open>
  The layout the index blob is specified to have, written from the description and
  independent of the buffer code: a 16-byte header (the squelched count, then twelve
  zero bytes) followed by one fixed-width entry per map entry, the primary key's bytes
  and the block number. \<open>pk_bytes\<close> is the primary key field of width 1, 8 or 16: the
  hexadecimal key (two \<open>:\<close>-separated keys for width 16) as big-endian bytes.
\<close>

definition pk_bytes :: "nat \<Rightarrow> string \<Rightarrow> byte list option" where
  "pk_bytes width primaryKey =
     (if width = 1 then
        (case ParseUint primaryKey 8 of Inl _ \<Rightarrow> None | Inr v \<Rightarrow> Some [ucast v])
      else if width = 8 then
        (case ParseUint primaryKey 64 of Inl _ \<Rightarrow> None | Inr v \<Rightarrow> Some (be64 v))
      else
        (case Split primaryKey CHR '':'' of
           [a, b] \<Rightarrow>
             (case ParseUint a 64 of
                Inl _ \<Rightarrow> None
              | Inr x \<Rightarrow> (case ParseUint b 64 of Inl _ \<Rightarrow> None | Inr y \<Rightarrow> Some (be64 x @ be64 y)))
         | _ \<Rightarrow> None))"

definition entry_be :: "nat \<Rightarrow> string \<times> u32 \<Rightarrow> byte list" where
  "entry_be width kv = the (pk_bytes width (fst kv)) @ be32 (snd kv)"

definition index_blob_be :: "nat \<Rightarrow> u32 \<Rightarrow> (string \<times> u32) list \<Rightarrow> byte list" where
  "index_blob_be width squelched kvs =
     be32 squelched @ replicate 12 0 @ concat (map (entry_be width) kvs)"

text \<open>
  The primary keys the readers produce: fixed-width lowercase hexadecimal, two digits
  for a one-byte key, sixteen for a 64-bit key, and two 64-bit keys joined by \<open>:\<close>.
\<close>

definition lower_hex :: "nat \<Rightarrow> string \<Rightarrow> bool" where
  "lower_hex n s = (length s = n \<and> list_all (\<lambda>c. c \<in> set ''0123456789abcdef'') s)"

definition canonical_pk :: "nat \<Rightarrow> string \<Rightarrow> bool" where
  "canonical_pk width primaryKey =
     (if width = 1 then lower_hex 2 primaryKey
      else if width = 8 then lower_hex 16 primaryKey
      else length primaryKey = 33 \<and> primaryKey ! 16 = CHR '':''
           \<and> lower_hex 16 (take 16 primaryKey) \<and> lower_hex 16 (drop 17 primaryKey))"

section \<open>The index build: IndexTables\<close>

text \<open>
  Modelled from the spec: the KV store behind \<^verbatim>\<open>fdb.store\<close> and its batch are not in
  the sources. The spec's backend contract is an ordered key-value store with
  \<^verbatim>\<open>Scan(start, end, callback)\<close>, "inclusive start, exclusive end, lexicographic
  order", \<^verbatim>\<open>FetchIndex(tablet_key, prefix, start)\<close>, "first entry with
  \<^verbatim>\<open>key \<ge> start && key has prefix\<close>" or not found, and atomic batches with
  \<^verbatim>\<open>SetIndex\<close>, \<^verbatim>\<open>FlushIfFull\<close> and \<^verbatim>\<open>Flush\<close>. The store is two lists of entries
  kept in key order, the tablet rows and the index blobs; strings are ordered
  lexicographically, characters by their code. Backend I/O failures are not modelled:
  each is an early error return of the functions below.
\<close>

record KVStore =
  rows :: "(string \<times> byte list) list"
  indexes :: "(string \<times> byte list) list"

text \<open>The rows a scan hands to its callback, in order.\<close>

definition ScanTabletRows :: "KVStore \<Rightarrow> string \<Rightarrow> string \<Rightarrow> (string \<times> byte list) list" where
  "ScanTabletRows st firstRowKey lastRowKey =
     filter (\<lambda>(key, val). firstRowKey \<le> key \<and> key < lastRowKey) (rows st)"

definition FetchIndex :: "KVStore \<Rightarrow> string \<Rightarrow> string \<Rightarrow> string \<Rightarrow> error + (string \<times> byte list)" where
  "FetchIndex st tableKey prefixKey startIndexKey =
     (case filter (\<lambda>(key, val). startIndexKey \<le> key \<and> HasPrefix key prefixKey) (indexes st) of
        [] \<Rightarrow> Inl ErrNotFound
      | kv # _ \<Rightarrow> Inr kv)"

type_synonym Batch = "(string \<times> byte list) list"

definition SetIndex :: "Batch \<Rightarrow> string \<Rightarrow> byte list \<Rightarrow> Batch" where
  "SetIndex batch indexKey snapshot = batch @ [(indexKey, snapshot)]"

definition put_index :: "string \<times> byte list \<Rightarrow> (string \<times> byte list) list \<Rightarrow> (string \<times> byte list) list" where
  "put_index kv entries =
     (if fst kv \<in> fst ` set entries
      then map (\<lambda>e. if fst e = fst kv then kv else e) entries
      else insort_key fst kv entries)"

definition Flush :: "KVStore \<Rightarrow> Batch \<Rightarrow> KVStore \<times> Batch" where
  "Flush st batch = (st\<lparr>indexes := fold put_index batch (indexes st)\<rparr>, [])"

definition FlushIfFull :: "(Batch \<Rightarrow> bool) \<Rightarrow> KVStore \<Rightarrow> Batch \<Rightarrow> KVStore \<times> Batch" where
  "FlushIfFull full st batch = (if full batch then Flush st batch else (st, batch))"

text \<open>
  Modelled from the spec: \<^verbatim>\<open>chunkKeyRevBlockNum\<close> is not in the sources. An index key is
  the prefix followed by \<^verbatim>\<open>fmt("%08x", 0xFFFFFFFF - block_num)\<close>; the block number is read
  back from the hexadecimal chunk after the prefix.
\<close>

definition chunkKeyRevBlockNum :: "string \<Rightarrow> string \<Rightarrow> error + u32" where
  "chunkKeyRevBlockNum key prefixKey =
     (if \<not> HasPrefix key prefixKey then Inl (ErrMsg ''key should start with prefix key'')
      else (case ParseUint (drop (length prefixKey) key) 32 of
              Inl e \<Rightarrow> Inl e
            | Inr v \<Rightarrow> Inr (0xFFFFFFFF - ucast v)))"

text \<open>
  What the build takes from outside the sources: \<^verbatim>\<open>explodeWritableRowKey\<close> (not in the
  sources; it splits a row key into table key, block number and primary key), the
  batch's own test for being full, and the order in which the Go runtime ranges over an
  index map when it is marshalled.
\<close>

record build_env =
  explodeWritableRowKey :: "string \<Rightarrow> error + (string \<times> u32 \<times> string)"
  batch_full :: "Batch \<Rightarrow> bool"
  map_range :: "(string \<rightharpoonup> u32) \<Rightarrow> (string \<times> u32) list"

record FluxDB =
  store :: KVStore
  idxCache :: indexCache

text \<open>\<^verbatim>\<open>FluxDB.getIndex\<close>: \<open>Inr None\<close> is the source's \<^verbatim>\<open>return nil, nil\<close>.\<close>

definition getIndex :: "KVStore \<Rightarrow> string \<Rightarrow> u32 \<Rightarrow> error + TableIndex option" where
  "getIndex st tableKey blockNum =
     (let prefixKey = tableKey @ '':'';
          startIndexKey = prefixKey @ HexRevBlockNum blockNum in
      case FetchIndex st tableKey prefixKey startIndexKey of
        Inl e \<Rightarrow> (if e = ErrNotFound then Inr None else Inl e)
      | Inr (rowKey, rawIndex) \<Rightarrow>
          (case chunkKeyRevBlockNum rowKey prefixKey of
             Inl e \<Rightarrow> Inl (Wrap ''couldn't infer block num in table index's row key'' e)
           | Inr indexBlockNum \<Rightarrow>
               (case NewTableIndexFromBinary tableKey indexBlockNum rawIndex of
                  Inl e \<Rightarrow> Inl (Wrap ''couldn't unmarshal binary index'' e)
                | Inr index \<Rightarrow> Inr (Some index))))"

text \<open>
  The scan callback of \<^verbatim>\<open>IndexTables\<close>, run over the scanned rows. It updates
  \<^verbatim>\<open>index.Map\<close> in place and counts the rows; the first key that does not explode ends
  the scan with the map and the count as they are at that row.
\<close>

fun scan_rows ::
  "(string \<Rightarrow> error + (string \<times> u32 \<times> string)) \<Rightarrow> (string \<times> byte list) list
     \<Rightarrow> (string \<rightharpoonup> u32) \<Rightarrow> nat \<Rightarrow> (string \<rightharpoonup> u32) \<times> nat \<times> error option" where
  "scan_rows explode [] m count = (m, count, None)"
| "scan_rows explode ((key, val) # rest) m count =
     (case explode key of
        Inl e \<Rightarrow> (m, count, Some (Wrap ''couldn't parse row key'' e))
      | Inr (_, blockNum, primKey) \<Rightarrow>
          scan_rows explode rest
            (if length val = 0 then m(primKey := None) else m(primKey \<mapsto> blockNum))
            (count + 1))"

text \<open>
  The first step of the loop body of \<^verbatim>\<open>IndexTables\<close>: the index from the cache if it
  has one, else the one \<^verbatim>\<open>getIndex\<close> loads from the store, else a new empty index.
\<close>

definition load_index :: "KVStore \<Rightarrow> indexCache \<Rightarrow> string \<Rightarrow> u32 \<Rightarrow> error + TableIndex" where
  "load_index st cache tableKey blockNum =
     (case GetIndex cache tableKey of
        Some index \<Rightarrow> Inr index
      | None \<Rightarrow>
          (case getIndex st tableKey blockNum of
             Inl e \<Rightarrow> Inl (Wrap ''get index'' e)
           | Inr None \<Rightarrow> Inr NewTableIndex
           | Inr (Some index) \<Rightarrow> Inr index))"

text \<open>
  The body of the \<^verbatim>\<open>for tableKey, blockNum := range fdb.idxCache.scheduleIndexing\<close> loop
  of \<^verbatim>\<open>IndexTables\<close>, on the database and the open batch. The result carries the state
  as it is when the body ends, also when it ends with an error: an index taken from the
  cache is a pointer, so a scan that fails half-way leaves its partial updates in the
  cached index (\<open>in_cache\<close> below).
\<close>

definition index_table ::
  "build_env \<Rightarrow> string \<times> u32 \<Rightarrow> FluxDB \<times> Batch \<Rightarrow> (FluxDB \<times> Batch) \<times> error option" where
  "index_table env entry state =
     (let tableKey = fst entry; blockNum = snd entry;
          flushed = FlushIfFull (batch_full env) (store (fst state)) (snd state);
          st = fst flushed; batch = snd flushed;
          fdb1 = (fst state)\<lparr>store := st\<rparr>;
          in_cache = (GetIndex (idxCache fdb1) tableKey \<noteq> None) in
      case load_index st (idxCache fdb1) tableKey blockNum of
        Inl e \<Rightarrow> ((fdb1, batch), Some e)
      | Inr index \<Rightarrow>
          (let firstRowKey = tableKey @ '':'' @ HexBlockNum (AtBlockNum index + 1);
               lastRowKey = tableKey @ '':'' @ HexBlockNum (blockNum + 1) in
           case scan_rows (explodeWritableRowKey env) (ScanTabletRows st firstRowKey lastRowKey)
                  (Map index) 0 of
             (m, count, Some e) \<Rightarrow>
               ((fdb1\<lparr>idxCache :=
                    (if in_cache then CacheIndex (idxCache fdb1) tableKey (index\<lparr>Map := m\<rparr>)
                     else idxCache fdb1)\<rparr>, batch),
                Some (Wrap ''read rows'' e))
           | (m, count, None) \<Rightarrow>
               (let index1 = index\<lparr>Map := m, AtBlockNum := blockNum, Squelched := of_nat count\<rparr>;
                    fdb2 = fdb1\<lparr>idxCache :=
                             (if in_cache then CacheIndex (idxCache fdb1) tableKey index1
                              else idxCache fdb1)\<rparr> in
                case MarshalBinary index1 (map_range env (Map index1)) tableKey of
                  Inl e \<Rightarrow> ((fdb2, batch), Some (Wrap ''unable to marshal table index to binary'' e))
                | Inr snapshot \<Rightarrow>
                    (let indexKey = tableKey @ '':'' @ HexRevBlockNum (AtBlockNum index1);
                         batch1 = SetIndex batch indexKey snapshot;
                         c1 = CacheIndex (idxCache fdb2) tableKey index1;
                         c2 = ResetCounter c1 tableKey;
                         c3 = c2\<lparr>scheduleIndexing := (scheduleIndexing c2)(tableKey := None)\<rparr> in
                     ((fdb2\<lparr>idxCache := c3\<rparr>, batch1), None)))))"

text \<open>
  The loop over the schedule. \<open>sched\<close> is the sequence of entries the \<^verbatim>\<open>range\<close> visits;
  the body deletes only the entry it is at, so every entry of the schedule at entry is
  visited once. The first error ends the loop.
\<close>

fun index_tables_loop ::
  "build_env \<Rightarrow> (string \<times> u32) list \<Rightarrow> FluxDB \<times> Batch \<Rightarrow> (FluxDB \<times> Batch) \<times> error option" where
  "index_tables_loop env [] state = (state, None)"
| "index_tables_loop env (entry # rest) state =
     (case index_table env entry state of
        (state1, Some e) \<Rightarrow> (state1, Some e)
      | (state1, None) \<Rightarrow> index_tables_loop env rest state1)"

text \<open>\<^verbatim>\<open>FluxDB.IndexTables\<close>: a new batch, the loop, the final flush.\<close>

definition IndexTables :: "build_env \<Rightarrow> (string \<times> u32) list \<Rightarrow> FluxDB \<Rightarrow> FluxDB \<times> error option" where
  "IndexTables env sched fdb =
     (case index_tables_loop env sched (fdb, []) of
        ((fdb1, batch), Some e) \<Rightarrow> (fdb1, Some e)
      | ((fdb1, batch), None) \<Rightarrow>
          (let (st, batch1) = Flush (store fdb1) batch in (fdb1\<lparr>store := st\<rparr>, None)))"

text \<open>
  The effect of one scanned row on the snapshot map, as the build algorithm is described:
  a row with an empty value is a tombstone and removes its primary key, any other row
  sets its primary key to the row's block number.
\<close>

definition apply_row ::
  "(string \<Rightarrow> error + (string \<times> u32 \<times> string)) \<Rightarrow> string \<times> byte list
     \<Rightarrow> (string \<rightharpoonup> u32) \<Rightarrow> (string \<rightharpoonup> u32)" where
  "apply_row explode row m =
     (case explode (fst row) of
        Inl _ \<Rightarrow> m
      | Inr (_, blockNum, primKey) \<Rightarrow>
          if snd row = [] then m(primKey := None) else m(primKey \<mapsto> blockNum))"

text \<open>
  The index the build algorithm is described to produce for table \<open>T\<close> at block \<open>N\<close> from
  a starting snapshot \<open>S\<close>: the rows of the key range from block \<open>S.at_block + 1\<close> up to,
  and not including, block \<open>N + 1\<close> applied to the snapshot's map, \<open>AtBlockNum = N\<close> and
  \<open>Squelched\<close> the number of rows scanned (as a \<^verbatim>\<open>uint32\<close>).
\<close>

definition built_index :: "build_env \<Rightarrow> KVStore \<Rightarrow> string \<Rightarrow> u32 \<Rightarrow> TableIndex \<Rightarrow> TableIndex" where
  "built_index env st T N S =
     (let scanned = ScanTabletRows st (T @ '':'' @ HexBlockNum (AtBlockNum S + 1))
                      (T @ '':'' @ HexBlockNum (N + 1)) in
      \<lparr>AtBlockNum = N, Squelched = of_nat (length scanned),
       Map = fold (apply_row (explodeWritableRowKey env)) scanned (Map S)\<rparr>)"

section \<open>Definitions used in the proofs\<close>

text \<open>The value of a string of hexadecimal digits, read left to right as \<^verbatim>\<open>ParseUint\<close> does.\<close>

definition hexstep :: "nat \<Rightarrow> char \<Rightarrow> nat" where
  "hexstep a c = a * 16 + the (hexval c)"

definition hexnum :: "string \<Rightarrow> nat" where
  "hexnum s = foldl hexstep 0 s"

text \<open>
  What the proofs need of a primary-key writer and reader of a given width: the writer
  overwrites the first \<open>width\<close> bytes of its slice with \<open>pk_bytes\<close> and fails on a key
  that has none; the reader gives a canonical key back from its bytes.
\<close>

definition writes_pk :: "indexPrimaryKeyWriter \<Rightarrow> nat \<Rightarrow> bool" where
  "writes_pk w width =
     (\<forall>k buffer. width \<le> length buffer \<longrightarrow>
        (pk_bytes width k = None \<longrightarrow> isl (w k buffer))
        \<and> (\<forall>bs. pk_bytes width k = Some bs \<longrightarrow> w k buffer = Inr (bs @ drop width buffer)))"

definition reads_pk :: "indexPrimaryKeyReader \<Rightarrow> nat \<Rightarrow> bool" where
  "reads_pk rd width =
     (\<forall>k. canonical_pk width k \<longrightarrow>
        (\<exists>bs. pk_bytes width k = Some bs \<and> (\<forall>rest. rd (bs @ rest) = Inr k)))"

text \<open>One step of the loop of \<^verbatim>\<open>NewTableIndexFromBinary\<close>: \<^verbatim>\<open>mapping[primaryKey] = blockNum\<close>.\<close>

definition put_entry :: "string \<times> u32 \<Rightarrow> (string \<rightharpoonup> u32) \<Rightarrow> (string \<rightharpoonup> u32)" where
  "put_entry kv m = m(fst kv \<mapsto> snd kv)"

section \<open>The EOS name codec\<close>




definition base32Alphabet :: string where
  "base32Alphabet = ''.12345abcdefghijklmnopqrstuvwxyz''"

text \<open>
  One turn of the loop of \<^verbatim>\<open>NameToString\<close> on \<^verbatim>\<open>tmp\<close> and the character array \<^verbatim>\<open>a\<close>:
  the first turn takes 4 bits, the others 5.
\<close>

definition eos_string_step :: "nat \<Rightarrow> u64 \<times> string \<Rightarrow> u64 \<times> string" where
  "eos_string_step i st =
     (let tmp = fst st; a = snd st;
          bit = (if i = 0 then 0x0f else 0x1f) :: u64;
          c = base32Alphabet ! unat (tmp AND bit);
          shift = (if i = 0 then 4 else 5) :: nat in
      (drop_bit shift tmp, a[12 - i := c]))"

definition TrimRight :: "string \<Rightarrow> char \<Rightarrow> string" where
  "TrimRight s c = rev (dropWhile (\<lambda>x. x = c) (rev s))"

definition eos_NameToString :: "u64 \<Rightarrow> string" where
  "eos_NameToString v =
     TrimRight (snd (fold eos_string_step [0..<13] (v, ''.............''))) CHR ''.''"

section \<open>Concrete inputs\<close>

text \<open>A database whose last written (irreversible) block is 10 and whose head is 12.\<close>

definition db_lib10_head12 :: read_db where
  "db_lib10_head12 =
     \<lparr>FetchLastWrittenBlock = Inr \<lparr>ref_ID = ''0000000a'', ref_Num = 10\<rparr>,
      HeadBlock = \<lparr>ref_ID = ''0000000c'', ref_Num = 12\<rparr>,
      SpeculativeWritesFetcher = (\<lambda>_ _. [])\<rparr>"

text \<open>A key exploder that accepts the key of the table-scope row used below.\<close>

definition explode_scope_key :: explode_fn where
  "explode_scope_key key =
     (if key = ''ctbls/eosio:table/00000000/scope''
      then Inr (''ctbls'', ''eosio:table'', ''00000000'', ''scope'')
      else Inl (ErrMsg ''invalid key''))"

text \<open>An index cache where the table \<^verbatim>\<open>ts:eosio\<close> has 1500 mutated rows and no snapshot.\<close>

definition cache_1500 :: indexCache where
  "cache_1500 = newIndexCache\<lparr>lastCounters := [''ts:eosio'' \<mapsto> 1500]\<rparr>"

text \<open>
  A table-scope index with one row, and the same index with the key written without its
  leading zeros.
\<close>

definition idx_one :: TableIndex where
  "idx_one = \<lparr>AtBlockNum = 7, Squelched = 3, Map = [''0000000000000001'' \<mapsto> 5]\<rparr>"

definition idx_short_key :: TableIndex where
  "idx_short_key = \<lparr>AtBlockNum = 7, Squelched = 3, Map = [''1'' \<mapsto> 5]\<rparr>"

text \<open>
  A table-scope tablet \<^verbatim>\<open>ts:eosio\<close> with four rows in the store: key \<open>b\<close> written at
  block 3 and deleted at block 6, key \<open>a\<close> written at block 7 and deleted at block 9. No
  snapshot is persisted. \<open>fdb_fresh\<close> has an empty index cache and the table scheduled at
  block 7; \<open>fdb_cached\<close> has the same schedule and a cached index at block 5.
\<close>

definition demo_table :: string where
  "demo_table = ''ts:eosio''"

definition key_a :: string where
  "key_a = ''000000000000000a''"

definition key_b :: string where
  "key_b = ''000000000000000b''"

definition key_c :: string where
  "key_c = ''000000000000000c''"

definition explode_demo :: "string \<Rightarrow> error + (string \<times> u32 \<times> string)" where
  "explode_demo key =
     (if key = ''ts:eosio:00000003:000000000000000b'' then Inr (''ts:eosio'', 3, key_b)
      else if key = ''ts:eosio:00000006:000000000000000b'' then Inr (''ts:eosio'', 6, key_b)
      else if key = ''ts:eosio:00000007:000000000000000a'' then Inr (''ts:eosio'', 7, key_a)
      else if key = ''ts:eosio:00000009:000000000000000a'' then Inr (''ts:eosio'', 9, key_a)
      else Inl (ErrMsg ''invalid row key''))"

definition map_range_demo :: "(string \<rightharpoonup> u32) \<Rightarrow> (string \<times> u32) list" where
  "map_range_demo m =
     concat (map (\<lambda>k. case m k of None \<Rightarrow> [] | Some v \<Rightarrow> [(k, v)]) [key_a, key_b, key_c])"

definition env_demo :: build_env where
  "env_demo = \<lparr>explodeWritableRowKey = explode_demo, batch_full = (\<lambda>b. False),
                map_range = map_range_demo\<rparr>"

definition store_demo :: KVStore where
  "store_demo =
     \<lparr>rows = [(''ts:eosio:00000003:000000000000000b'', [1]),
              (''ts:eosio:00000006:000000000000000b'', []),
              (''ts:eosio:00000007:000000000000000a'', [1]),
              (''ts:eosio:00000009:000000000000000a'', [])],
      indexes = []\<rparr>"

definition fdb_fresh :: FluxDB where
  "fdb_fresh = \<lparr>store = store_demo,
                 idxCache = newIndexCache\<lparr>lastCounters := [demo_table \<mapsto> 1000],
                                          scheduleIndexing := [demo_table \<mapsto> 7]\<rparr>\<rparr>"

definition idx_cached :: TableIndex where
  "idx_cached = \<lparr>AtBlockNum = 5, Squelched = 0, Map = [key_c \<mapsto> 5]\<rparr>"

definition fdb_cached :: FluxDB where
  "fdb_cached = \<lparr>store = store_demo,
                  idxCache = \<lparr>lastIndexes = [demo_table \<mapsto> idx_cached],
                              lastCounters = [demo_table \<mapsto> 1000],
                              scheduleIndexing = [demo_table \<mapsto> 7]\<rparr>\<rparr>"

section \<open>Byte-order lemmas\<close>

lemma length_be64 [simp]: "length (be64 v) = 8"
  by (simp add: be64_def)

lemma length_be32 [simp]: "length (be32 v) = 4"
  by (simp add: be32_def)

lemma or_bytes_u32:
  "(ucast (ucast v :: byte) OR push_bit 8 (ucast (ucast (drop_bit 8 v) :: byte))
     OR push_bit 16 (ucast (ucast (drop_bit 16 v) :: byte))
     OR push_bit 24 (ucast (ucast (drop_bit 24 v) :: byte)) :: u32) = v"
proof (rule bit_word_eqI)
  fix n :: nat
  assume n: "n < LENGTH(32)"
  consider "n < 8" | "8 \<le> n \<and> n < 16" | "16 \<le> n \<and> n < 24" | "24 \<le> n \<and> n < 32"
    using n by force
  then show "bit (ucast (ucast v :: byte) OR push_bit 8 (ucast (ucast (drop_bit 8 v) :: byte))
     OR push_bit 16 (ucast (ucast (drop_bit 16 v) :: byte))
     OR push_bit 24 (ucast (ucast (drop_bit 24 v) :: byte)) :: u32) n = bit v n"
    by cases (auto simp add: bit_simps)
qed

lemma or_bytes_u64:
  "(ucast (ucast v :: byte) OR push_bit 8 (ucast (ucast (drop_bit 8 v) :: byte))
     OR push_bit 16 (ucast (ucast (drop_bit 16 v) :: byte))
     OR push_bit 24 (ucast (ucast (drop_bit 24 v) :: byte))
     OR push_bit 32 (ucast (ucast (drop_bit 32 v) :: byte))
     OR push_bit 40 (ucast (ucast (drop_bit 40 v) :: byte))
     OR push_bit 48 (ucast (ucast (drop_bit 48 v) :: byte))
     OR push_bit 56 (ucast (ucast (drop_bit 56 v) :: byte)) :: u64) = v"
proof (rule bit_word_eqI)
  fix n :: nat
  assume n: "n < LENGTH(64)"
  consider "n < 8" | "8 \<le> n \<and> n < 16" | "16 \<le> n \<and> n < 24" | "24 \<le> n \<and> n < 32"
    | "32 \<le> n \<and> n < 40" | "40 \<le> n \<and> n < 48" | "48 \<le> n \<and> n < 56" | "56 \<le> n \<and> n < 64"
    using n by force
  then show "bit (ucast (ucast v :: byte) OR push_bit 8 (ucast (ucast (drop_bit 8 v) :: byte))
     OR push_bit 16 (ucast (ucast (drop_bit 16 v) :: byte))
     OR push_bit 24 (ucast (ucast (drop_bit 24 v) :: byte))
     OR push_bit 32 (ucast (ucast (drop_bit 32 v) :: byte))
     OR push_bit 40 (ucast (ucast (drop_bit 40 v) :: byte))
     OR push_bit 48 (ucast (ucast (drop_bit 48 v) :: byte))
     OR push_bit 56 (ucast (ucast (drop_bit 56 v) :: byte)) :: u64) n = bit v n"
    by cases (auto simp add: bit_simps)
qed

lemma BigEndian_Uint32_be32: "BigEndian_Uint32 (be32 v @ r) = Inr v"
  using or_bytes_u32 [of v] by (simp add: BigEndian_Uint32_def be32_def)

lemma BigEndian_Uint64_be64: "BigEndian_Uint64 (be64 v @ r) = Inr v"
  using or_bytes_u64 [of v] by (simp add: BigEndian_Uint64_def be64_def)

section \<open>The scheduling decision\<close>

text \<open>
  Claim C4. For a table with mutation counter \<open>c\<close> and a cached snapshot of map size
  \<open>s\<close>, \<open>shouldTriggerIndexing\<close> is true exactly when \<open>c \<ge> 1000\<close>, not
  (\<open>s > 100000\<close> and \<open>c < 10000\<close>) and not (\<open>s > 50000\<close> and \<open>c < 5000\<close>); with no
  cached snapshot it is true exactly when \<open>c \<ge> 1000\<close>. In particular it is false
  whenever \<open>c < 1000\<close>, and true when \<open>c \<ge> 1000\<close> and no snapshot is cached.
\<close>

theorem shouldTriggerIndexing_decision:
  "shouldTriggerIndexing t table =
     (case lastIndexes t table of
        None \<Rightarrow> GetCount t table \<ge> 1000
      | Some idx \<Rightarrow>
          GetCount t table \<ge> 1000
          \<and> \<not> (len_map (Map idx) > 100000 \<and> GetCount t table < 10000)
          \<and> \<not> (len_map (Map idx) > 50000 \<and> GetCount t table < 5000))
   \<and> (GetCount t table < 1000 \<longrightarrow> \<not> shouldTriggerIndexing t table)
   \<and> (GetCount t table \<ge> 1000 \<and> lastIndexes t table = None \<longrightarrow> shouldTriggerIndexing t table)"
  by (auto simp: shouldTriggerIndexing_def Let_def split: option.splits)

theorem shouldTriggerIndexing_decision_witness:
  "GetCount cache_1500 ''ts:eosio'' \<ge> 1000 \<and> lastIndexes cache_1500 ''ts:eosio'' = None
   \<and> shouldTriggerIndexing cache_1500 ''ts:eosio''
   \<and> GetCount newIndexCache ''ts:eosio'' < 1000
   \<and> \<not> shouldTriggerIndexing newIndexCache ''ts:eosio''"
  using shouldTriggerIndexing_decision [of cache_1500 "''ts:eosio''"]
    shouldTriggerIndexing_decision [of newIndexCache "''ts:eosio''"]
  by (simp add: cache_1500_def newIndexCache_def GetCount_def)

section \<open>prepareRead\<close>

lemma prepareRead_irreversible_too_high:
  "FetchLastWrittenBlock db = Inr lwb \<Longrightarrow> blockNum > ucast (ref_Num lwb) \<Longrightarrow>
     err (prepareRead db blockNum True) = Some (AppBlockNumHigherThanLIBError blockNum (ucast (ref_Num lwb)))"
  by (simp add: prepareRead_def zero_prepared_def)

lemma prepareRead_irreversible_pins_LIB:
  "FetchLastWrittenBlock db = Inr lwb \<Longrightarrow> blockNum \<le> ucast (ref_Num lwb) \<Longrightarrow>
     err (prepareRead db blockNum True) = None
     \<and> chosenBlockNum (prepareRead db blockNum True) = ucast (ref_Num lwb)"
  by (simp add: prepareRead_def zero_prepared_def not_less [symmetric])

lemma prepareRead_head_when_zero:
  "FetchLastWrittenBlock db = Inr lwb \<Longrightarrow>
     err (prepareRead db 0 False) = None
     \<and> chosenBlockNum (prepareRead db 0 False) = ucast (ref_Num (HeadBlock db))"
  by (simp add: prepareRead_def zero_prepared_def Let_def)

text \<open>
  Claim C1. With \<open>irreversible_only = true\<close> the claim has \<open>prepareRead\<close> return
  \<open>chosen_block_num = block_num\<close> when \<open>0 < block_num \<le> LIB\<close>. Evaluated at
  \<open>block_num = 5\<close> with the last written block at 10, the source returns 10 and no
  error: the test \<^verbatim>\<open>chosenBlockNum == 0\<close> reads the named result before anything is
  assigned to it.
\<close>

theorem prepareRead_irreversible_at_5_returns_LIB:
  "chosenBlockNum (prepareRead db_lib10_head12 5 True) = 10
   \<and> err (prepareRead db_lib10_head12 5 True) = None
   \<and> chosenBlockNum (prepareRead db_lib10_head12 5 False) = 5"
  by (simp add: prepareRead_def db_lib10_head12_def zero_prepared_def)

section \<open>Tablet rows\<close>

lemma ContractTableScopeTablet_NewRowFromKV_error_iff:
  "isl (ContractTableScopeTablet_NewRowFromKV ex key val)
     = (length val = 0 \<or> length val = 8 \<or> isl (ex key))"
  by (auto simp: ContractTableScopeTablet_NewRowFromKV_def split: sum.splits)

text \<open>
  Claim C2. The claim has \<open>ContractTableScopeTablet.NewRowFromKV\<close> succeed exactly on an
  empty or an 8-byte value. The source's guard is inverted: the 8-byte payer payload that
  \<open>NewRow\<close> writes and the empty tombstone payload are both rejected, and a 3-byte value
  is accepted.
\<close>

theorem ContractTableScopeTablet_NewRowFromKV_rejects_valid_payloads:
  "ContractTableScopeTablet_NewRowFromKV explode_scope_key ''ctbls/eosio:table/00000000/scope''
       (be64 0x5530EA0000000000)
     = Inl (ErrMsg ''contract table scope row value should have at 0 byte (deletion) or 8 bytes (payer)'')
   \<and> ContractTableScopeTablet_NewRowFromKV explode_scope_key ''ctbls/eosio:table/00000000/scope'' []
     = Inl (ErrMsg ''contract table scope row value should have at 0 byte (deletion) or 8 bytes (payer)'')
   \<and> ContractTableScopeTablet_NewRowFromKV explode_scope_key ''ctbls/eosio:table/00000000/scope'' [1, 2, 3]
     = Inr \<lparr>Collection = ctblsPrefix, TabletKey = ''eosio:table'', BlockNumKey = ''00000000'',
            PrimKey = ''scope'', Payload = [1, 2, 3]\<rparr>"
  by (simp add: ContractTableScopeTablet_NewRowFromKV_def explode_scope_key_def)

subsection \<open>The name codec on the payer\<close>







lemma unat_and_mask_less:
  fixes x :: u64
  shows "unat (x AND 0x1f) < 32" "unat (x AND 0x0f) < 32"
proof -
  have "x AND 0x1f \<le> 0x1f" by (rule word_and_le1)
  then show "unat (x AND 0x1f) < 32" by (simp add: word_le_nat_alt)
  have "x AND 0x0f \<le> 0x0f" by (rule word_and_le1)
  then show "unat (x AND 0x0f) < 32" by (simp add: word_le_nat_alt)
qed

lemma eos_string_step_alphabet:
  "set (snd st) \<subseteq> set base32Alphabet \<Longrightarrow> set (snd (eos_string_step i st)) \<subseteq> set base32Alphabet"
proof -
  assume a: "set (snd st) \<subseteq> set base32Alphabet"
  have len: "length base32Alphabet = 32" by (simp add: base32Alphabet_def)
  have c: "base32Alphabet ! unat (fst st AND (if i = 0 then 0x0f else 0x1f)) \<in> set base32Alphabet"
    using unat_and_mask_less [of "fst st"] by (auto simp: len intro!: nth_mem)
  show ?thesis
    using a c set_update_subset_insert [of "snd st"]
    by (fastforce simp: eos_string_step_def Let_def)
qed

lemma fold_eos_string_step_alphabet:
  "set (snd st) \<subseteq> set base32Alphabet \<Longrightarrow> set (snd (fold eos_string_step is st)) \<subseteq> set base32Alphabet"
  by (induction "is" arbitrary: st) (simp_all add: eos_string_step_alphabet)

lemma eos_NameToString_alphabet: "set (eos_NameToString v) \<subseteq> set base32Alphabet"
proof -
  have "set (snd (fold eos_string_step [0..<13] (v, ''.............''))) \<subseteq> set base32Alphabet"
    by (rule fold_eos_string_step_alphabet) (simp add: base32Alphabet_def)
  moreover have "set (TrimRight s c) \<subseteq> set s" for s c
    using set_dropWhileD [of _ "\<lambda>x. x = c" "rev s"] by (auto simp: TrimRight_def)
  ultimately show ?thesis
    unfolding eos_NameToString_def by blast
qed

lemma eos_NameToString_not_EOSIO: "eos_NameToString v \<noteq> ''EOSIO''"
proof
  assume "eos_NameToString v = ''EOSIO''"
  then have "CHR ''E'' \<in> set (eos_NameToString v)" by simp
  then have "CHR ''E'' \<in> set base32Alphabet" using eos_NameToString_alphabet by blast
  then show False by (simp add: base32Alphabet_def)
qed

text \<open>
  \<open>NameToString\<close> spells a name over the 32 symbols, so \<open>Payer()\<close> never returns
  \<^verbatim>\<open>EOSIO\<close>, on any row and whatever \<^verbatim>\<open>NA\<close> stored. And no codec at all restores every
  payer: strings are infinitely many and a name has 64 bits.
\<close>

lemma ContractStateRow_Payer_not_EOSIO:
  "ContractStateRow_Payer eos_NameToString row \<noteq> Inr ''EOSIO''"
  by (auto simp: ContractStateRow_Payer_def eos_NameToString_not_EOSIO split: sum.splits)

lemma no_codec_restores_every_payer:
  "\<exists>payer. \<forall>row. ContractStateTablet_NewRow NA t blockNum primaryKey payer data False = Inr row
      \<longrightarrow> ContractStateRow_Payer NameToString row \<noteq> Inr payer"
proof (rule ccontr)
  assume "\<not> ?thesis"
  then have all: "\<And>payer. \<exists>row. ContractStateTablet_NewRow NA t blockNum primaryKey payer data False = Inr row
      \<and> ContractStateRow_Payer NameToString row = Inr payer"
    by blast
  have rt: "NameToString (NA payer) = payer" for payer
    using all [of payer]
    by (auto simp add: ContractStateTablet_NewRow_def BigEndian_PutUint64_def copy_bytes_def
        ContractStateRow_Payer_def BigEndian_Uint64_be64)
  then have "inj NA" by (metis injI)
  moreover have "finite (range NA)" by simp
  ultimately have "finite (UNIV :: string set)" by (rule finite_imageD [rotated])
  then show False using infinite_UNIV_listI [where ?'a = char] by simp
qed




text \<open>
  Claim C9. \<open>ContractStateTablet.NewRowFromKV\<close> returns an error exactly when the value
  is shorter than 8 bytes or the key fails to explode; the empty payload that \<open>NewRow\<close>
  gives a deletion row is rejected, whatever the key.
\<close>

theorem ContractStateTablet_NewRowFromKV_error_iff:
  "isl (ContractStateTablet_NewRowFromKV ex key val) = (length val < 8 \<or> isl (ex key))
   \<and> (\<exists>row. ContractStateTablet_NewRow NA t blockNum primaryKey payer data True = Inr row
         \<and> Payload row = []
         \<and> ContractStateTablet_NewRowFromKV ex key' (Payload row)
             = Inl (ErrMsg ''contract state tablet row value should have at least 8 bytes (payer)''))"
  by (auto simp: ContractStateTablet_NewRowFromKV_def ContractStateTablet_NewRow_def split: sum.splits)

section \<open>Table index serialization: layout and round trip\<close>

lemma hexval_lower:
  "c \<in> set ''0123456789abcdef'' \<Longrightarrow> \<exists>d. hexval c = Some d \<and> d < 16 \<and> hexdigit d = c"
  by (auto simp: hexval_def hexdigit_def)

lemma foldl_hexstep_ge: "a \<le> foldl hexstep a s"
proof (induction s arbitrary: a)
  case Nil show ?case by simp
next
  case (Cons c cs)
  have "a \<le> hexstep a c" by (simp add: hexstep_def)
  also have "\<dots> \<le> foldl hexstep (hexstep a c) cs" by (rule Cons.IH)
  finally show ?case by simp
qed

lemma parse_digits_foldl:
  "list_all (\<lambda>c. c \<in> set ''0123456789abcdef'') s \<Longrightarrow> foldl hexstep acc s < 2 ^ bitSize \<Longrightarrow>
     bitSize \<le> 64 \<Longrightarrow> parse_digits bitSize acc s = Inr (foldl hexstep acc s)"
proof (induction s arbitrary: acc)
  case Nil then show ?case by simp
next
  case (Cons c cs)
  from Cons.prems(1) obtain d where d: "hexval c = Some d" "d < 16"
    using hexval_lower [of c] by auto
  have step: "hexstep acc c = acc * 16 + d" by (simp add: hexstep_def d)
  have le: "acc * 16 + d \<le> foldl hexstep (acc * 16 + d) cs" by (rule foldl_hexstep_ge)
  have lt: "acc * 16 + d < 2 ^ bitSize" using le Cons.prems(2) by (simp add: step)
  have "(2::nat) ^ bitSize \<le> 2 ^ 64" using Cons.prems(3) by (intro power_increasing) auto
  then have "acc * 16 < 2 ^ 64" using lt by linarith
  then have acc: "\<not> acc \<ge> 2 ^ 60" by simp
  have ih: "parse_digits bitSize (acc * 16 + d) cs = Inr (foldl hexstep (acc * 16 + d) cs)"
    using Cons.IH [of "acc * 16 + d"] Cons.prems by (simp add: step)
  show ?case using d acc lt ih by (simp add: step Let_def)
qed

lemma hexnum_snoc: "hexnum (xs @ [c]) = hexnum xs * 16 + the (hexval c)"
  by (simp add: hexnum_def hexstep_def)

lemma fmt_hex_hexnum:
  "list_all (\<lambda>c. c \<in> set ''0123456789abcdef'') s \<Longrightarrow>
     fmt_hex (length s) (hexnum s) = s \<and> hexnum s < 16 ^ length s"
proof (induction s rule: rev_induct)
  case Nil show ?case by (simp add: hexnum_def)
next
  case (snoc c xs)
  from snoc.prems obtain d where d: "hexval c = Some d" "d < 16" "hexdigit d = c"
    using hexval_lower [of c] by auto
  have ih: "fmt_hex (length xs) (hexnum xs) = xs" "hexnum xs < 16 ^ length xs"
    using snoc by auto
  have v: "hexnum (xs @ [c]) = hexnum xs * 16 + d" by (simp add: hexnum_snoc d)
  have "hexnum xs * 16 + d < 16 * 16 ^ length xs" using ih(2) d(2) by linarith
  then show ?case using ih d by (simp add: v)
qed

lemma ParseUint_lower_hex16:
  assumes "lower_hex 16 s"
  shows "ParseUint s 64 = Inr (of_nat (hexnum s)) \<and> fmt_hex 16 (unat (of_nat (hexnum s) :: u64)) = s"
proof -
  have all: "list_all (\<lambda>c. c \<in> set ''0123456789abcdef'') s" and len: "length s = 16"
    using assms by (auto simp: lower_hex_def)
  have f: "fmt_hex 16 (hexnum s) = s" and b: "hexnum s < 16 ^ 16"
    using fmt_hex_hexnum [OF all] len by auto
  have b64: "hexnum s < 2 ^ 64" using b by simp
  have "parse_digits 64 0 s = Inr (hexnum s)"
    using parse_digits_foldl [OF all, of 0 64] b64 by (simp add: hexnum_def)
  moreover have "s \<noteq> []" using len by auto
  moreover have "unat (of_nat (hexnum s) :: u64) = hexnum s"
    using b64 by (simp add: unat_of_nat)
  ultimately show ?thesis using f by (simp add: ParseUint_def)
qed

lemma ParseUint_lower_hex2:
  assumes "lower_hex 2 s"
  shows "ParseUint s 8 = Inr (of_nat (hexnum s))
         \<and> fmt_hex 2 (unat (ucast (of_nat (hexnum s) :: u64) :: byte)) = s"
proof -
  have all: "list_all (\<lambda>c. c \<in> set ''0123456789abcdef'') s" and len: "length s = 2"
    using assms by (auto simp: lower_hex_def)
  have f: "fmt_hex 2 (hexnum s) = s" and b: "hexnum s < 16 ^ 2"
    using fmt_hex_hexnum [OF all] len by auto
  have b8: "hexnum s < 2 ^ 8" using b by simp
  have "parse_digits 8 0 s = Inr (hexnum s)"
    using parse_digits_foldl [OF all, of 0 8] b8 by (simp add: hexnum_def)
  moreover have "s \<noteq> []" using len by auto
  moreover have "unat (ucast (of_nat (hexnum s) :: u64) :: byte) = hexnum s"
    using b8 by (simp add: unsigned_ucast_eq unat_of_nat take_bit_nat_eq_self)
  ultimately show ?thesis using f by (simp add: ParseUint_def)
qed


lemma length_pk_bytes:
  "width \<in> {1, 8, 16} \<Longrightarrow> pk_bytes width k = Some bs \<Longrightarrow> length bs = width"
  by (auto simp: pk_bytes_def split: sum.splits list.splits if_splits)

lemma HasPrefix_cases:
  "indexPrimaryKeyByteCountByTableKey tk \<in> {0, 1, 8, 16}"
  by (simp add: indexPrimaryKeyByteCountByTableKey_def)

lemma oneByte_writer:
  "1 \<le> length buffer \<Longrightarrow>
     oneBytePrimaryKeyWriterFactory tag k buffer =
       (case pk_bytes 1 k of
          None \<Rightarrow> Inl (Wrap (tag @ '' primary key writer: unable to transform primary key to byte'')
                    (projl (ParseUint k 8)))
        | Some bs \<Rightarrow> Inr (bs @ drop 1 buffer))"
  by (cases buffer) (auto simp: oneBytePrimaryKeyWriterFactory_def pk_bytes_def split: sum.splits)

lemma writeOneUint64_eq:
  "8 \<le> length buffer \<Longrightarrow>
     writeOneUint64 k buffer =
       (case ParseUint k 64 of
          Inl e \<Rightarrow> Inl (Wrap ''unable to transform primary key to uint64'' e)
        | Inr v \<Rightarrow> Inr (be64 v @ drop 8 buffer))"
  by (auto simp: writeOneUint64_def BigEndian_PutUint64_def split: sum.splits)

lemma oneUint64_writer:
  "8 \<le> length buffer \<Longrightarrow>
     (pk_bytes 8 k = None \<longrightarrow> isl (oneUint64PrimaryKeyWriterFactory tag k buffer))
     \<and> (\<forall>bs. pk_bytes 8 k = Some bs \<longrightarrow>
           oneUint64PrimaryKeyWriterFactory tag k buffer = Inr (bs @ drop 8 buffer))"
  by (auto simp: oneUint64PrimaryKeyWriterFactory_def writeOneUint64_eq pk_bytes_def split: sum.splits)

lemma oneByte_writer':
  "1 \<le> length buffer \<Longrightarrow>
     (pk_bytes 1 k = None \<longrightarrow> isl (oneBytePrimaryKeyWriterFactory tag k buffer))
     \<and> (\<forall>bs. pk_bytes 1 k = Some bs \<longrightarrow>
           oneBytePrimaryKeyWriterFactory tag k buffer = Inr (bs @ drop 1 buffer))"
  by (auto simp: oneByte_writer split: option.splits)

lemma twoUint64_writer:
  assumes len: "16 \<le> length buffer"
  shows "(pk_bytes 16 k = None \<longrightarrow> isl (twoUint64PrimaryKeyWriterFactory tag k buffer))
     \<and> (\<forall>bs. pk_bytes 16 k = Some bs \<longrightarrow>
           twoUint64PrimaryKeyWriterFactory tag k buffer = Inr (bs @ drop 16 buffer))"
proof -
  have l8: "8 \<le> length buffer" and l8': "8 \<le> length (drop 8 buffer)"
    using len by simp_all
  consider "Split k CHR '':'' = []" | a where "Split k CHR '':'' = [a]"
    | a b where "Split k CHR '':'' = [a, b]"
    | a b c r where "Split k CHR '':'' = a # b # c # r"
    by (cases "Split k CHR '':''" rule: list.exhaust; simp; metis list.exhaust)
  then show ?thesis
  proof cases
    case 1
    then show ?thesis by (simp add: twoUint64PrimaryKeyWriterFactory_def pk_bytes_def)
  next
    case 2
    then show ?thesis by (simp add: twoUint64PrimaryKeyWriterFactory_def pk_bytes_def)
  next
    case 3
    then show ?thesis
      using len
      by (auto simp: twoUint64PrimaryKeyWriterFactory_def pk_bytes_def Let_def
            writeOneUint64_eq [OF l8] writeOneUint64_eq [OF l8'] split: sum.splits)
  next
    case 4
    then show ?thesis by (simp add: twoUint64PrimaryKeyWriterFactory_def pk_bytes_def)
  qed
qed


lemma index_blob_be_alt:
  "index_blob_be width sq kvs = be32 sq @ replicate 12 0 @ concat (map (entry_be width) kvs)"
  by (simp add: index_blob_be_def)

lemma writer_by_key:
  assumes "indexPrimaryKeyByteCountByTableKey tk \<noteq> 0"
  shows "\<exists>w. indexPrimaryKeyWriterByTableKey tk = Some w
           \<and> writes_pk w (indexPrimaryKeyByteCountByTableKey tk)
           \<and> indexPrimaryKeyByteCountByTableKey tk \<in> {1, 8, 16}"
  using assms
  by (auto simp: indexPrimaryKeyByteCountByTableKey_def indexPrimaryKeyWriterByTableKey_def
      writes_pk_def oneByte_writer' oneUint64_writer twoUint64_writer split: if_splits)

lemma marshal_entries_ok:
  assumes W: "writes_pk w width" and wd: "width \<in> {1, 8, 16}"
  shows "list_all (\<lambda>kv. pk_bytes width (fst kv) \<noteq> None) kvs \<Longrightarrow>
         length snapshot = pos + length kvs * (width + 4) \<Longrightarrow>
         marshal_entries w width kvs pos snapshot
           = Inr (take pos snapshot @ concat (map (entry_be width) kvs))"
proof (induction kvs arbitrary: pos snapshot)
  case Nil
  then show ?case by simp
next
  case (Cons kv rest)
  obtain k v where kv: "kv = (k, v)" by (cases kv)
  from Cons.prems(1) obtain bs where bs: "pk_bytes width k = Some bs"
    by (auto simp: kv)
  have lbs: "length bs = width" using length_pk_bytes [OF wd bs] .
  have len: "length snapshot = pos + (width + 4) + length rest * (width + 4)"
    using Cons.prems(2) by simp
  have room: "width \<le> length (drop pos snapshot)" using len by simp
  have w1: "w k (drop pos snapshot) = Inr (bs @ drop (pos + width) snapshot)"
    using W room bs by (simp add: writes_pk_def add.commute)
  define s1 where "s1 = take pos snapshot @ bs @ drop (pos + width) snapshot"
  have ls1: "length s1 = length snapshot" using len lbs by (simp add: s1_def)
  have d1: "drop (pos + width) s1 = drop (pos + width) snapshot"
    using len lbs by (simp add: s1_def)
  have t1: "take (pos + width) s1 = take pos snapshot @ bs"
    using len lbs by (simp add: s1_def)
  have p32: "big_PutUint32 (drop (pos + width) s1) v
               = Inr (be32 v @ drop (pos + (width + 4)) snapshot)"
    using len by (simp add: d1 big_PutUint32_def BigEndian_PutUint32_def ac_simps)
  define s2 where "s2 = take pos snapshot @ bs @ be32 v @ drop (pos + (width + 4)) snapshot"
  have ls2: "length s2 = pos + (width + 4) + length rest * (width + 4)"
    using len lbs by (simp add: s2_def)
  have t2: "take (pos + (width + 4)) s2 = take pos snapshot @ bs @ be32 v"
    using len lbs by (simp add: s2_def)
  have ih: "marshal_entries w width rest (pos + (width + 4)) s2
              = Inr (take (pos + (width + 4)) s2 @ concat (map (entry_be width) rest))"
    using Cons.IH [of s2 "pos + (width + 4)"] Cons.prems(1) ls2 by simp
  have e: "entry_be width kv = bs @ be32 v" by (simp add: entry_be_def kv bs)
  have step: "marshal_entries w width (kv # rest) pos snapshot
                = marshal_entries w width rest (pos + (width + 4)) s2"
    using len ls1 w1 p32
    by (simp add: kv Let_def s1_def [symmetric] t1 s2_def)
  show ?case by (simp add: step ih t2 e)
qed

lemma marshal_entries_fail:
  assumes W: "writes_pk w width" and wd: "width \<in> {1, 8, 16}"
  shows "\<not> list_all (\<lambda>kv. pk_bytes width (fst kv) \<noteq> None) kvs \<Longrightarrow>
         length snapshot = pos + length kvs * (width + 4) \<Longrightarrow>
         isl (marshal_entries w width kvs pos snapshot)"
proof (induction kvs arbitrary: pos snapshot)
  case Nil
  then show ?case by simp
next
  case (Cons kv rest)
  obtain k v where kv: "kv = (k, v)" by (cases kv)
  have len: "length snapshot = pos + (width + 4) + length rest * (width + 4)"
    using Cons.prems(2) by simp
  have room: "width \<le> length (drop pos snapshot)" using len by simp
  show ?case
  proof (cases "pk_bytes width k")
    case None
    then have "isl (w k (drop pos snapshot))" using W room by (simp add: writes_pk_def)
    then show ?thesis using len by (auto simp: kv split: sum.splits)
  next
    case (Some bs)
    have rest_bad: "\<not> list_all (\<lambda>kv. pk_bytes width (fst kv) \<noteq> None) rest"
      using Cons.prems(1) Some by (simp add: kv)
    have lbs: "length bs = width" using length_pk_bytes [OF wd Some] .
    have w1: "w k (drop pos snapshot) = Inr (bs @ drop (pos + width) snapshot)"
      using W room Some by (simp add: writes_pk_def add.commute)
    define s1 where "s1 = take pos snapshot @ bs @ drop (pos + width) snapshot"
    have ls1: "length s1 = length snapshot" using len lbs by (simp add: s1_def)
    have d1: "drop (pos + width) s1 = drop (pos + width) snapshot"
      using len lbs by (simp add: s1_def)
    have t1: "take (pos + width) s1 = take pos snapshot @ bs"
      using len lbs by (simp add: s1_def)
    have p32: "big_PutUint32 (drop (pos + width) s1) v
                 = Inr (be32 v @ drop (pos + (width + 4)) snapshot)"
      using len by (simp add: d1 big_PutUint32_def BigEndian_PutUint32_def ac_simps)
    define s2 where "s2 = take pos snapshot @ bs @ be32 v @ drop (pos + (width + 4)) snapshot"
    have ls2: "length s2 = pos + (width + 4) + length rest * (width + 4)"
      using len lbs by (simp add: s2_def)
    have step: "marshal_entries w width (kv # rest) pos snapshot
                  = marshal_entries w width rest (pos + (width + 4)) s2"
      using len ls1 w1 p32
      by (simp add: kv Let_def s1_def [symmetric] t1 s2_def)
    show ?thesis using Cons.IH [OF rest_bad ls2] by (simp add: step)
  qed
qed


lemma range_of_keys:
  assumes "range_of m kvs"
  shows "fst ` set kvs = dom m"
proof -
  have "m = map_of kvs" using assms by (simp add: range_of_def)
  then show ?thesis by (simp add: dom_map_of_conv_image_fst)
qed

lemma range_of_card:
  assumes "range_of m kvs"
  shows "card (dom m) = length kvs"
proof -
  have "dom m = set (map fst kvs)" using range_of_keys [OF assms] by simp
  moreover have "distinct (map fst kvs)" using assms by (simp add: range_of_def)
  ultimately show ?thesis using distinct_card [of "map fst kvs"] by simp
qed

lemma range_of_all:
  assumes "range_of m kvs"
  shows "list_all (\<lambda>kv. P (fst kv)) kvs = (\<forall>k\<in>dom m. P k)"
proof -
  have "(\<forall>kv\<in>set kvs. P (fst kv)) = (\<forall>k\<in>fst ` set kvs. P k)" by blast
  then show ?thesis by (simp add: list_all_iff range_of_keys [OF assms])
qed

lemma MarshalBinary_ok:
  assumes nz: "indexPrimaryKeyByteCountByTableKey tk \<noteq> 0"
    and r: "range_of (Map idx) kvs"
    and enc: "\<forall>k\<in>dom (Map idx). pk_bytes (indexPrimaryKeyByteCountByTableKey tk) k \<noteq> None"
  shows "MarshalBinary idx kvs tk
           = Inr (index_blob_be (indexPrimaryKeyByteCountByTableKey tk) (Squelched idx) kvs)"
proof -
  define width where "width = indexPrimaryKeyByteCountByTableKey tk"
  obtain w where w: "indexPrimaryKeyWriterByTableKey tk = Some w" "writes_pk w width"
    "width \<in> {1, 8, 16}"
    using writer_by_key [OF nz] by (auto simp: width_def)
  have n: "card (dom (Map idx)) = length kvs" using range_of_card [OF r] .
  have all: "list_all (\<lambda>kv. pk_bytes width (fst kv) \<noteq> None) kvs"
    using enc range_of_all [OF r, of "\<lambda>k. pk_bytes width k \<noteq> None"]
    unfolding width_def by blast
  define s1 where "s1 = be32 (Squelched idx) @ replicate ((width + 4) * length kvs + 12) (0 :: byte)"
  have put: "big_PutUint32 (replicate ((width + 4) * length kvs + 16) 0) (Squelched idx) = Inr s1"
    by (simp add: big_PutUint32_def BigEndian_PutUint32_def s1_def)
  have ls1: "length s1 = 16 + length kvs * (width + 4)" by (simp add: s1_def)
  have "replicate ((width + 4) * length kvs + 12) (0 :: byte)
          = replicate 12 0 @ replicate ((width + 4) * length kvs) 0"
    by (simp add: replicate_add [symmetric])
  then have t16: "take 16 s1 = be32 (Squelched idx) @ replicate 12 0" by (simp add: s1_def)
  have "marshal_entries w width kvs 16 s1 = Inr (take 16 s1 @ concat (map (entry_be width) kvs))"
    using marshal_entries_ok [OF w(2) w(3) all ls1] .
  then show ?thesis
    using nz w(1) put
    by (simp add: MarshalBinary_def Let_def n width_def [symmetric] t16 index_blob_be_alt)
qed

lemma MarshalBinary_fail:
  assumes nz: "indexPrimaryKeyByteCountByTableKey tk \<noteq> 0"
    and r: "range_of (Map idx) kvs"
    and enc: "\<not> (\<forall>k\<in>dom (Map idx). pk_bytes (indexPrimaryKeyByteCountByTableKey tk) k \<noteq> None)"
  shows "isl (MarshalBinary idx kvs tk)"
proof -
  define width where "width = indexPrimaryKeyByteCountByTableKey tk"
  obtain w where w: "indexPrimaryKeyWriterByTableKey tk = Some w" "writes_pk w width"
    "width \<in> {1, 8, 16}"
    using writer_by_key [OF nz] by (auto simp: width_def)
  have n: "card (dom (Map idx)) = length kvs" using range_of_card [OF r] .
  have all: "\<not> list_all (\<lambda>kv. pk_bytes width (fst kv) \<noteq> None) kvs"
    using enc range_of_all [OF r, of "\<lambda>k. pk_bytes width k \<noteq> None"]
    unfolding width_def by blast
  define s1 where "s1 = be32 (Squelched idx) @ replicate ((width + 4) * length kvs + 12) (0 :: byte)"
  have put: "big_PutUint32 (replicate ((width + 4) * length kvs + 16) 0) (Squelched idx) = Inr s1"
    by (simp add: big_PutUint32_def BigEndian_PutUint32_def s1_def)
  have ls1: "length s1 = 16 + length kvs * (width + 4)" by (simp add: s1_def)
  have "isl (marshal_entries w width kvs 16 s1)"
    using marshal_entries_fail [OF w(2) w(3) all ls1] .
  then show ?thesis
    using nz w(1) put
    by (simp add: MarshalBinary_def Let_def n width_def [symmetric])
qed

lemma length_index_blob_be:
  assumes wd: "width \<in> {1, 8, 16}"
    and all: "list_all (\<lambda>kv. pk_bytes width (fst kv) \<noteq> None) kvs"
  shows "length (concat (map (entry_be width) kvs)) = length kvs * (width + 4)"
  using all
proof (induction kvs)
  case Nil show ?case by simp
next
  case (Cons kv rest)
  then obtain bs where "pk_bytes width (fst kv) = Some bs" by auto
  then have "length (entry_be width kv) = width + 4"
    using length_pk_bytes [OF wd] by (simp add: entry_be_def)
  then show ?case using Cons by simp
qed


lemma Split_no_sep: "sep \<notin> set s \<Longrightarrow> Split s sep = [s]"
  by (induction s) auto

lemma Split_at_sep: "sep \<notin> set a \<Longrightarrow> Split (a @ sep # b) sep = a # Split b sep"
  by (induction a) auto

lemma lower_char_not_colon: "c \<in> set ''0123456789abcdef'' \<Longrightarrow> c \<noteq> CHR '':''"
  by auto

lemma lower_hex_no_colon: "lower_hex n s \<Longrightarrow> CHR '':'' \<notin> set s"
  unfolding lower_hex_def list_all_iff using lower_char_not_colon by blast

lemma readOneUint64_be64: "readOneUint64 (be64 v @ rest) = Inr (fmt_hex 16 (unat v))"
  by (simp add: readOneUint64_def BigEndian_Uint64_be64)

lemma oneByte_reader: "reads_pk (oneBytePrimaryKeyReaderFactory tag) 1"
  unfolding reads_pk_def
proof (intro allI impI)
  fix k assume "canonical_pk 1 k"
  then have lh: "lower_hex 2 k" by (simp add: canonical_pk_def)
  note p = ParseUint_lower_hex2 [OF lh]
  show "\<exists>bs. pk_bytes 1 k = Some bs \<and> (\<forall>rest. oneBytePrimaryKeyReaderFactory tag (bs @ rest) = Inr k)"
    using p by (simp add: pk_bytes_def oneBytePrimaryKeyReaderFactory_def)
qed

lemma oneUint64_reader: "reads_pk (oneUint64PrimaryKeyReaderFactory tag) 8"
  unfolding reads_pk_def
proof (intro allI impI)
  fix k assume "canonical_pk 8 k"
  then have lh: "lower_hex 16 k" by (simp add: canonical_pk_def)
  note p = ParseUint_lower_hex16 [OF lh]
  show "\<exists>bs. pk_bytes 8 k = Some bs \<and> (\<forall>rest. oneUint64PrimaryKeyReaderFactory tag (bs @ rest) = Inr k)"
    using p by (simp add: pk_bytes_def oneUint64PrimaryKeyReaderFactory_def readOneUint64_be64)
qed

lemma twoUint64_reader: "reads_pk (twoUint64PrimaryKeyReaderFactory tag) 16"
  unfolding reads_pk_def
proof (intro allI impI)
  fix k assume "canonical_pk 16 k"
  then have len: "length k = 33" and c: "k ! 16 = CHR '':''"
    and la: "lower_hex 16 (take 16 k)" and lb: "lower_hex 16 (drop 17 k)"
    by (simp_all add: canonical_pk_def)
  define a where "a = take 16 k"
  define b where "b = drop 17 k"
  have "k = take 16 k @ drop 16 k" by simp
  also have "drop 16 k = k ! 16 # drop 17 k" using Cons_nth_drop_Suc [of 16 k] len by simp
  finally have k: "k = a @ CHR '':'' # b" by (simp add: a_def b_def c)
  have sp: "Split k CHR '':'' = [a, b]"
    using lower_hex_no_colon [OF la] lower_hex_no_colon [OF lb]
    by (subst k) (simp add: Split_at_sep Split_no_sep a_def b_def)
  note pa = ParseUint_lower_hex16 [OF la, folded a_def]
  note pb = ParseUint_lower_hex16 [OF lb, folded b_def]
  have "twoUint64PrimaryKeyReaderFactory tag
          ((be64 (of_nat (hexnum a)) @ be64 (of_nat (hexnum b))) @ rest) = Inr k" for rest
    using pa pb readOneUint64_be64 [of "of_nat (hexnum a)" "be64 (of_nat (hexnum b)) @ rest"]
      readOneUint64_be64 [of "of_nat (hexnum b)" rest]
    by (simp add: twoUint64PrimaryKeyReaderFactory_def k)
  then show "\<exists>bs. pk_bytes 16 k = Some bs \<and> (\<forall>rest. twoUint64PrimaryKeyReaderFactory tag (bs @ rest) = Inr k)"
    using pa pb by (simp add: pk_bytes_def sp)
qed

lemma reader_by_key:
  assumes "indexPrimaryKeyByteCountByTableKey tk \<noteq> 0"
  shows "\<exists>rd. indexPrimaryKeyReaderByTableKey tk = Some rd
           \<and> reads_pk rd (indexPrimaryKeyByteCountByTableKey tk)"
proof -
  have r1: "reads_pk (oneBytePrimaryKeyReaderFactory tag) (Suc 0)" for tag
    using oneByte_reader [of tag] by simp
  show ?thesis
    using assms
    by (auto simp: indexPrimaryKeyByteCountByTableKey_def indexPrimaryKeyReaderByTableKey_def
        r1 oneUint64_reader twoUint64_reader split: if_splits)
qed

lemma canonical_pk_encodable:
  assumes "indexPrimaryKeyByteCountByTableKey tk \<noteq> 0"
    and "canonical_pk (indexPrimaryKeyByteCountByTableKey tk) k"
  shows "pk_bytes (indexPrimaryKeyByteCountByTableKey tk) k \<noteq> None"
proof -
  obtain rd where "reads_pk rd (indexPrimaryKeyByteCountByTableKey tk)"
    using reader_by_key [OF assms(1)] by blast
  then obtain bs where "pk_bytes (indexPrimaryKeyByteCountByTableKey tk) k = Some bs"
    using assms(2) unfolding reads_pk_def by blast
  then show ?thesis by simp
qed

lemma read_entries_layout:
  assumes R: "reads_pk rd width" and wd: "width \<in> {1, 8, 16}"
  shows "list_all (\<lambda>kv. canonical_pk width (fst kv)) kvs \<Longrightarrow> length pre = pos \<Longrightarrow>
         read_entries rd width (pre @ concat (map (entry_be width) kvs)) pos m
           = Inr (fold put_entry kvs m)"
proof (induction kvs arbitrary: pre pos m)
  case Nil
  then show ?case by (subst read_entries.simps) simp
next
  case (Cons kv rest)
  obtain k v where kv: "kv = (k, v)" by (cases kv)
  have can: "canonical_pk width k" using Cons.prems(1) by (simp add: kv)
  then obtain bs where bs: "pk_bytes width k = Some bs"
    and rd: "\<And>r. rd (bs @ r) = Inr k"
    using R by (auto simp: reads_pk_def)
  have lbs: "length bs = width" using length_pk_bytes [OF wd bs] .
  define tl where "tl = concat (map (entry_be width) rest)"
  define buffer where "buffer = pre @ concat (map (entry_be width) (kv # rest))"
  have buf: "buffer = pre @ bs @ be32 v @ tl"
    by (simp add: buffer_def tl_def entry_be_def kv bs)
  have lt: "pos < length buffer" using Cons.prems(2) by (simp add: buf)
  have d0: "drop pos buffer = bs @ (be32 v @ tl)" using Cons.prems(2) by (simp add: buf)
  have room: "\<not> pos + width > length buffer" using Cons.prems(2) lbs by (simp add: buf)
  have d1: "drop (pos + width) buffer = be32 v @ tl" using Cons.prems(2) lbs by (simp add: buf)
  have u32: "big_Uint32 (drop (pos + width) buffer) = Inr v"
    by (simp add: d1 big_Uint32_def BigEndian_Uint32_be32)
  have buf': "buffer = (pre @ bs @ be32 v) @ concat (map (entry_be width) rest)"
    by (simp add: buf tl_def)
  have ih: "read_entries rd width buffer (pos + (width + 4)) (m(k \<mapsto> v))
              = Inr (fold put_entry rest (m(k \<mapsto> v)))"
    unfolding buf'
    by (rule Cons.IH) (use Cons.prems lbs in simp_all)
  have "read_entries rd width buffer pos m
          = read_entries rd width buffer (pos + (width + 4)) (m(k \<mapsto> v))"
    by (subst read_entries.simps) (simp add: lt d0 rd room u32)
  moreover have "put_entry kv m = m(k \<mapsto> v)" by (simp add: put_entry_def kv)
  ultimately have "read_entries rd width buffer pos m = Inr (fold put_entry (kv # rest) m)"
    using ih by simp
  then show ?case by (simp only: buffer_def)
qed

lemma fold_put_entry:
  "distinct (map fst kvs) \<Longrightarrow> fold put_entry kvs m = m ++ map_of kvs"
proof (induction kvs arbitrary: m)
  case Nil show ?case by simp
next
  case (Cons kv rest)
  obtain k v where kv: "kv = (k, v)" by (cases kv)
  have notin: "k \<notin> dom (map_of rest)" using Cons.prems by (simp add: kv dom_map_of_conv_image_fst)
  have pe: "put_entry kv m = m(k \<mapsto> v)" by (simp add: put_entry_def kv)
  have "distinct (map fst rest)" using Cons.prems by simp
  then have "fold put_entry rest (m(k \<mapsto> v)) = m(k \<mapsto> v) ++ map_of rest"
    by (rule Cons.IH)
  then have "fold put_entry (kv # rest) m = m(k \<mapsto> v) ++ map_of rest"
    by (simp add: pe)
  moreover have "m(k \<mapsto> v) ++ map_of rest = m ++ map_of (kv # rest)"
  proof (rule ext)
    fix x
    show "(m(k \<mapsto> v) ++ map_of rest) x = (m ++ map_of (kv # rest)) x"
      using notin by (auto simp: kv map_add_def domIff split: option.splits)
  qed
  ultimately show ?case by (simp only:)
qed

lemma NewTableIndexFromBinary_blob:
  assumes nz: "indexPrimaryKeyByteCountByTableKey tk \<noteq> 0"
    and r: "range_of m kvs"
    and can: "\<forall>k\<in>dom m. canonical_pk (indexPrimaryKeyByteCountByTableKey tk) k"
  shows "NewTableIndexFromBinary tk at (index_blob_be (indexPrimaryKeyByteCountByTableKey tk) sq kvs)
           = Inr \<lparr>AtBlockNum = at, Squelched = sq, Map = m\<rparr>"
proof -
  define width where "width = indexPrimaryKeyByteCountByTableKey tk"
  obtain rd where rd: "indexPrimaryKeyReaderByTableKey tk = Some rd" "reads_pk rd width"
    using reader_by_key [OF nz] by (auto simp: width_def)
  have wd: "width \<in> {1, 8, 16}" using writer_by_key [OF nz] by (auto simp: width_def)
  have all: "list_all (\<lambda>kv. canonical_pk width (fst kv)) kvs"
    using can range_of_all [OF r, of "\<lambda>k. canonical_pk width k"]
    unfolding width_def by blast
  have enc: "list_all (\<lambda>kv. pk_bytes width (fst kv) \<noteq> None) kvs"
    using all canonical_pk_encodable [OF nz] by (auto simp: list_all_iff width_def)
  define blob where "blob = index_blob_be width sq kvs"
  have blob: "blob = (be32 sq @ replicate 12 0) @ concat (map (entry_be width) kvs)"
    by (simp add: blob_def index_blob_be_alt)
  have len: "length blob = 16 + length kvs * (width + 4)"
    by (simp add: blob length_index_blob_be [OF wd enc])
  have e: "int (length blob) - 16 = int (length kvs * (width + 4))" using len by simp
  have "(length kvs * (width + 4)) mod (width + 4) = 0" by simp
  then have m0: "int (length kvs * (width + 4)) mod int (width + 4) = 0"
    by (simp only: of_nat_mod [symmetric] of_nat_0)
  have n0: "\<not> int (length kvs * (width + 4)) < 0" by (simp only: of_nat_less_0_iff not_False_eq_True)
  have align: "\<not> (int (length blob) - 16 < 0 \<or> (int (length blob) - 16) mod int (width + 4) \<noteq> 0)"
    unfolding e using m0 n0 by blast
  have loop: "read_entries rd width blob 16 Map.empty = Inr (fold put_entry kvs Map.empty)"
    unfolding blob
    by (rule read_entries_layout [OF rd(2) wd all]) simp
  have "distinct (map fst kvs)" and mo: "map_of kvs = m" using r by (simp_all add: range_of_def)
  then have maps: "fold put_entry kvs Map.empty = m" by (simp add: fold_put_entry)
  have sqd: "big_Uint32 (take 4 blob) = Inr sq"
    using BigEndian_Uint32_be32 [of sq "[]"] by (simp add: blob big_Uint32_def)
  show ?thesis
    using nz rd(1) align loop sqd
    by (simp add: NewTableIndexFromBinary_def Let_def width_def [symmetric] blob_def [symmetric] maps)
qed

lemma concat_fixed_width:
  "\<forall>x\<in>set xs. length (f x) = w \<Longrightarrow> i < length xs \<Longrightarrow>
     take w (drop (i * w) (concat (map f xs))) = f (xs ! i)"
proof (induction xs arbitrary: i)
  case Nil
  then show ?case by simp
next
  case (Cons x xs)
  show ?case
  proof (cases i)
    case 0
    then show ?thesis using Cons.prems by simp
  next
    case (Suc j)
    have "drop (i * w) (f x @ concat (map f xs)) = drop (j * w) (concat (map f xs))"
      using Cons.prems by (simp add: Suc)
    then show ?thesis using Cons.IH [of j] Cons.prems by (simp add: Suc)
  qed
qed

lemma replicate_12: "replicate 12 x = [x, x, x, x, x, x, x, x, x, x, x, x]"
  by (simp add: eval_nat_numeral)

lemma ByteCount_ts: "indexPrimaryKeyByteCountByTableKey ''ts:eosio:accounts'' = 8"
  by (simp add: indexPrimaryKeyByteCountByTableKey_def HasPrefix_def)

lemma pk_bytes_one: "pk_bytes 8 ''0000000000000001'' = Some [0, 0, 0, 0, 0, 0, 0, 1]"
  by (simp add: pk_bytes_def ParseUint_def hexval_def be64_def)

lemma pk_bytes_short: "pk_bytes 8 ''1'' = Some [0, 0, 0, 0, 0, 0, 0, 1]"
  by (simp add: pk_bytes_def ParseUint_def hexval_def be64_def)

text \<open>
  Claim C3, as amended. For a table key with a registered primary-key codec of width
  \<open>Pb\<close> and an index whose map has \<open>n\<close> entries, \<open>MarshalBinary\<close> returns an error
  when some key has no encoding for the kind, and otherwise a blob of exactly
  \<open>16 + n * (Pb + 4)\<close> bytes: bytes 0..4 hold the squelched count as a big-endian
  \<^verbatim>\<open>u32\<close>, bytes 4..16 are zero, and the \<open>i\<close>-th entry, at byte \<open>16 + i * (Pb + 4)\<close>, is the
  primary key's \<open>Pb\<close> bytes followed by the block number as a big-endian \<^verbatim>\<open>u32\<close>, in
  the order the map was ranged over.
\<close>

theorem MarshalBinary_layout:
  assumes "indexPrimaryKeyByteCountByTableKey tableKey = Pb" and "Pb \<noteq> 0"
    and "range_of (Map idx) kvs"
  shows "if \<forall>k\<in>dom (Map idx). pk_bytes Pb k \<noteq> None
         then \<exists>blob. MarshalBinary idx kvs tableKey = Inr blob
                \<and> blob = index_blob_be Pb (Squelched idx) kvs
                \<and> length blob = 16 + card (dom (Map idx)) * (Pb + 4)
                \<and> take 4 blob = be32 (Squelched idx)
                \<and> take 12 (drop 4 blob) = replicate 12 0
                \<and> (\<forall>i<length kvs.
                      take (Pb + 4) (drop (16 + i * (Pb + 4)) blob)
                        = the (pk_bytes Pb (fst (kvs ! i))) @ be32 (snd (kvs ! i)))
         else isl (MarshalBinary idx kvs tableKey)"
proof (cases "\<forall>k\<in>dom (Map idx). pk_bytes Pb k \<noteq> None")
  case False
  have "isl (MarshalBinary idx kvs tableKey)"
    using MarshalBinary_fail [of tableKey idx kvs] assms False by simp
  then show ?thesis unfolding if_not_P [OF False] .
next
  case True
  have nz: "indexPrimaryKeyByteCountByTableKey tableKey \<noteq> 0" using assms by simp
  have wd: "Pb \<in> {1, 8, 16}" using writer_by_key [OF nz] assms(1) by auto
  define blob where "blob = index_blob_be Pb (Squelched idx) kvs"
  have m: "MarshalBinary idx kvs tableKey = Inr blob"
    using MarshalBinary_ok [OF nz assms(3)] True assms(1) by (simp add: blob_def)
  have all: "list_all (\<lambda>kv. pk_bytes Pb (fst kv) \<noteq> None) kvs"
    using True range_of_all [OF assms(3), of "\<lambda>k. pk_bytes Pb k \<noteq> None"] by blast
  have lens: "\<forall>kv\<in>set kvs. length (entry_be Pb kv) = Pb + 4"
  proof
    fix kv assume "kv \<in> set kvs"
    then obtain bs where "pk_bytes Pb (fst kv) = Some bs" using all by (auto simp: list_all_iff)
    then show "length (entry_be Pb kv) = Pb + 4"
      using length_pk_bytes [OF wd] by (simp add: entry_be_def)
  qed
  have b: "blob = be32 (Squelched idx) @ replicate 12 0 @ concat (map (entry_be Pb) kvs)"
    by (simp add: blob_def index_blob_be_alt)
  have len: "length blob = 16 + card (dom (Map idx)) * (Pb + 4)"
    by (simp add: b length_index_blob_be [OF wd all] range_of_card [OF assms(3)])
  have d16: "drop 16 blob = concat (map (entry_be Pb) kvs)" by (simp add: b)
  have ent: "take (Pb + 4) (drop (16 + i * (Pb + 4)) blob)
               = the (pk_bytes Pb (fst (kvs ! i))) @ be32 (snd (kvs ! i))" if "i < length kvs" for i
  proof -
    have h: "drop (16 + i * (Pb + 4)) blob = drop (i * (Pb + 4)) (drop 16 blob)"
      by (simp add: add.commute)
    have c: "take (Pb + 4) (drop (i * (Pb + 4)) (concat (map (entry_be Pb) kvs))) = entry_be Pb (kvs ! i)"
      using concat_fixed_width [OF lens that] .
    show ?thesis unfolding h d16 c by (simp add: entry_be_def)
  qed
  have "\<exists>blob. MarshalBinary idx kvs tableKey = Inr blob
          \<and> blob = index_blob_be Pb (Squelched idx) kvs
          \<and> length blob = 16 + card (dom (Map idx)) * (Pb + 4)
          \<and> take 4 blob = be32 (Squelched idx)
          \<and> take 12 (drop 4 blob) = replicate 12 0
          \<and> (\<forall>i<length kvs.
                take (Pb + 4) (drop (16 + i * (Pb + 4)) blob)
                  = the (pk_bytes Pb (fst (kvs ! i))) @ be32 (snd (kvs ! i)))"
    using m len ent by (intro exI [of _ blob]) (simp add: b blob_def [symmetric])
  then show ?thesis unfolding if_P [OF True] .
qed

theorem MarshalBinary_layout_witness:
  "indexPrimaryKeyByteCountByTableKey ''ts:eosio:accounts'' = 8
   \<and> range_of (Map idx_one) [(''0000000000000001'', 5)]
   \<and> pk_bytes 8 ''0000000000000001'' \<noteq> None
   \<and> MarshalBinary idx_one [(''0000000000000001'', 5)] ''ts:eosio:accounts''
       = Inr [0, 0, 0, 3, 0, 0, 0, 0, 0, 0, 0, 0, 0, 0, 0, 0,
              0, 0, 0, 0, 0, 0, 0, 1, 0, 0, 0, 5]"
proof -
  have r: "range_of (Map idx_one) [(''0000000000000001'', 5)]"
    by (simp add: range_of_def idx_one_def)
  have "index_blob_be 8 3 [(''0000000000000001'', 5)]
          = [0, 0, 0, 3, 0, 0, 0, 0, 0, 0, 0, 0, 0, 0, 0, 0,
             0, 0, 0, 0, 0, 0, 0, 1, 0, 0, 0, 5]"
    by (simp add: index_blob_be_def entry_be_def pk_bytes_one be32_def replicate_12)
  then show ?thesis
    using MarshalBinary_layout [OF ByteCount_ts _ r] r
    by (simp add: ByteCount_ts pk_bytes_one idx_one_def)
qed

text \<open>
  The numeric fields are not little-endian: for the one-row index with squelched count 3
  and block number 5, bytes 0..4 are \<open>00 00 00 03\<close> and the entry's last four bytes are
  \<open>00 00 00 05\<close>.
\<close>

theorem MarshalBinary_little_endian_counterexample:
  "\<exists>blob. MarshalBinary idx_one [(''0000000000000001'', 5)] ''ts:eosio:accounts'' = Inr blob
     \<and> take 4 blob = [0, 0, 0, 3] \<and> le32 (Squelched idx_one) = [3, 0, 0, 0]
     \<and> take 4 blob \<noteq> le32 (Squelched idx_one)
     \<and> drop 24 blob = [0, 0, 0, 5] \<and> drop 24 blob \<noteq> le32 5"
proof -
  have r: "range_of (Map idx_one) [(''0000000000000001'', 5)]"
    by (simp add: range_of_def idx_one_def)
  have nz: "indexPrimaryKeyByteCountByTableKey ''ts:eosio:accounts'' \<noteq> 0"
    by (simp add: ByteCount_ts)
  have enc: "\<forall>k\<in>dom (Map idx_one). pk_bytes (indexPrimaryKeyByteCountByTableKey ''ts:eosio:accounts'') k \<noteq> None"
    by (simp add: idx_one_def ByteCount_ts pk_bytes_one)
  have "index_blob_be 8 3 [(''0000000000000001'', 5)]
          = [0, 0, 0, 3, 0, 0, 0, 0, 0, 0, 0, 0, 0, 0, 0, 0,
             0, 0, 0, 0, 0, 0, 0, 1, 0, 0, 0, 5]"
    by (simp add: index_blob_be_def entry_be_def pk_bytes_one be32_def replicate_12)
  then show ?thesis
    using MarshalBinary_ok [OF nz r enc]
    by (simp add: ByteCount_ts idx_one_def le32_def)
qed

text \<open>
  Claim C5. For a table key with a registered primary-key codec and an index whose map
  keys are valid encodings for that kind (the fixed-width lowercase hexadecimal keys the
  codec produces), \<open>NewTableIndexFromBinary\<close> applied to the result of
  \<open>MarshalBinary\<close>, at the index's own block number, returns the index: the same
  \<open>AtBlockNum\<close>, \<open>Squelched\<close> and map, whatever order the map was ranged over.
\<close>

theorem TableIndex_binary_roundtrip:
  assumes "indexPrimaryKeyByteCountByTableKey tableKey \<noteq> 0"
    and "range_of (Map idx) kvs"
    and "\<forall>k\<in>dom (Map idx). canonical_pk (indexPrimaryKeyByteCountByTableKey tableKey) k"
  shows "\<exists>blob. MarshalBinary idx kvs tableKey = Inr blob
           \<and> NewTableIndexFromBinary tableKey (AtBlockNum idx) blob = Inr idx"
proof -
  have enc: "\<forall>k\<in>dom (Map idx). pk_bytes (indexPrimaryKeyByteCountByTableKey tableKey) k \<noteq> None"
    using assms(3) canonical_pk_encodable [OF assms(1)] by blast
  show ?thesis
    using MarshalBinary_ok [OF assms(1,2) enc]
      NewTableIndexFromBinary_blob [OF assms(1) assms(2) assms(3), of "AtBlockNum idx" "Squelched idx"]
    by simp
qed


theorem TableIndex_binary_roundtrip_witness:
  "indexPrimaryKeyByteCountByTableKey ''ts:eosio:accounts'' \<noteq> 0
   \<and> range_of (Map idx_one) [(''0000000000000001'', 5)]
   \<and> canonical_pk 8 ''0000000000000001''
   \<and> (\<exists>blob. MarshalBinary idx_one [(''0000000000000001'', 5)] ''ts:eosio:accounts'' = Inr blob
         \<and> NewTableIndexFromBinary ''ts:eosio:accounts'' (AtBlockNum idx_one) blob = Inr idx_one)"
proof -
  have nz: "indexPrimaryKeyByteCountByTableKey ''ts:eosio:accounts'' \<noteq> 0"
    by (simp add: ByteCount_ts)
  have r: "range_of (Map idx_one) [(''0000000000000001'', 5)]"
    by (simp add: range_of_def idx_one_def)
  have c: "canonical_pk 8 ''0000000000000001''"
    by (simp add: canonical_pk_def lower_hex_def)
  have can: "\<forall>k\<in>dom (Map idx_one). canonical_pk (indexPrimaryKeyByteCountByTableKey ''ts:eosio:accounts'') k"
    using c by (simp add: idx_one_def ByteCount_ts)
  show ?thesis using TableIndex_binary_roundtrip [OF nz r can] nz r c by simp
qed

text \<open>
  A key the writer accepts but the reader does not produce is not restored: the key
  \<open>1\<close> comes back as \<open>0000000000000001\<close>.
\<close>

lemma short_key_not_restored:
  "MarshalBinary idx_short_key [(''1'', 5)] ''ts:eosio:accounts''
     = Inr [0, 0, 0, 3, 0, 0, 0, 0, 0, 0, 0, 0, 0, 0, 0, 0,
            0, 0, 0, 0, 0, 0, 0, 1, 0, 0, 0, 5]
   \<and> NewTableIndexFromBinary ''ts:eosio:accounts'' 7
        [0, 0, 0, 3, 0, 0, 0, 0, 0, 0, 0, 0, 0, 0, 0, 0,
         0, 0, 0, 0, 0, 0, 0, 1, 0, 0, 0, 5] = Inr idx_one"
proof -
  have r: "range_of (Map idx_short_key) [(''1'', 5)]"
    by (simp add: range_of_def idx_short_key_def)
  have nz: "indexPrimaryKeyByteCountByTableKey ''ts:eosio:accounts'' \<noteq> 0"
    by (simp add: ByteCount_ts)
  have enc: "\<forall>k\<in>dom (Map idx_short_key). pk_bytes (indexPrimaryKeyByteCountByTableKey ''ts:eosio:accounts'') k \<noteq> None"
    by (simp add: idx_short_key_def ByteCount_ts pk_bytes_short)
  have b: "index_blob_be 8 3 [(''1'', 5)]
          = [0, 0, 0, 3, 0, 0, 0, 0, 0, 0, 0, 0, 0, 0, 0, 0,
             0, 0, 0, 0, 0, 0, 0, 1, 0, 0, 0, 5]"
    by (simp add: index_blob_be_def entry_be_def pk_bytes_short be32_def replicate_12)
  have b1: "index_blob_be 8 3 [(''0000000000000001'', 5)]
          = [0, 0, 0, 3, 0, 0, 0, 0, 0, 0, 0, 0, 0, 0, 0, 0,
             0, 0, 0, 0, 0, 0, 0, 1, 0, 0, 0, 5]"
    by (simp add: index_blob_be_def entry_be_def pk_bytes_one be32_def replicate_12)
  have r1: "range_of [''0000000000000001'' \<mapsto> 5] [(''0000000000000001'', 5 :: u32)]"
    by (simp add: range_of_def)
  have c: "\<forall>k\<in>dom [''0000000000000001'' \<mapsto> (5 :: u32)].
             canonical_pk (indexPrimaryKeyByteCountByTableKey ''ts:eosio:accounts'') k"
    by (simp add: ByteCount_ts canonical_pk_def lower_hex_def)
  show ?thesis
    using MarshalBinary_ok [OF nz r enc] NewTableIndexFromBinary_blob [OF nz r1 c, of 7 3]
    by (simp add: ByteCount_ts b b1 idx_short_key_def idx_one_def)
qed


section \<open>The index build: what a successful run does\<close>

lemma append_less_same_prefix: "(p @ x < p @ y) = (x < (y :: string))"
  by (induction p) simp_all

lemma append_le_same_prefix: "(p @ x \<le> p @ y) = (x \<le> (y :: string))"
  by (induction p) simp_all

lemma less_append_same_length:
  "length a = length b \<Longrightarrow> (a @ r < b @ s) = (a < b \<or> a = b \<and> r < (s :: string))"
  by (induction a b rule: list_induct2) auto

lemma of_char_hexdigit_all:
  "\<forall>d<16. of_char (hexdigit d) = (if d < 10 then 48 + d else 87 + d)"
  by (simp add: eval_nat_numeral All_less_Suc hexdigit_def)

lemma of_char_hexdigit:
  "d < 16 \<Longrightarrow> of_char (hexdigit d) = (if d < 10 then 48 + d else 87 + d)"
  using of_char_hexdigit_all by blast

lemma hexdigit_less: "x < 16 \<Longrightarrow> y < 16 \<Longrightarrow> (hexdigit x < hexdigit y) = (x < y)"
  by (simp add: less_char_def of_char_hexdigit)

lemma length_fmt_hex [simp]: "length (fmt_hex n v) = n"
  by (induction n arbitrary: v) simp_all

lemma fmt_hex_less:
  "a < 16 ^ n \<Longrightarrow> b < 16 ^ n \<Longrightarrow> (fmt_hex n a < fmt_hex n b) = (a < b)"
proof (induction n arbitrary: a b)
  case 0
  then show ?case by simp
next
  case (Suc n)
  have da: "a div 16 < 16 ^ n" and db: "b div 16 < 16 ^ n"
    using Suc.prems by (simp_all add: less_mult_imp_div_less mult.commute)
  have lt: "(fmt_hex n (a div 16) < fmt_hex n (b div 16)) = (a div 16 < b div 16)"
    using Suc.IH [OF da db] .
  have gt: "(fmt_hex n (b div 16) < fmt_hex n (a div 16)) = (b div 16 < a div 16)"
    using Suc.IH [OF db da] .
  have eq: "(fmt_hex n (a div 16) = fmt_hex n (b div 16)) = (a div 16 = b div 16)"
    using lt gt by (metis less_irrefl linorder_neqE_nat)
  have "(fmt_hex (Suc n) a < fmt_hex (Suc n) b)
          = (a div 16 < b div 16 \<or> a div 16 = b div 16 \<and> a mod 16 < b mod 16)"
    by (simp add: less_append_same_length lt eq hexdigit_less)
  also have "\<dots> = (a < b)"
  proof -
    have ar: "(qa < qb \<or> qa = qb \<and> ra < rb) = (16 * qa + ra < 16 * qb + rb)"
      if "ra < 16" "rb < 16" for qa qb ra rb :: nat
      using that by arith
    have "(a div 16 < b div 16 \<or> a div 16 = b div 16 \<and> a mod 16 < b mod 16)
            = (16 * (a div 16) + a mod 16 < 16 * (b div 16) + b mod 16)"
      by (rule ar) simp_all
    then show ?thesis by simp
  qed
  finally show ?case .
qed

lemma Flush_rows [simp]: "rows (fst (Flush st batch)) = rows st"
  by (simp add: Flush_def)

lemma FlushIfFull_rows [simp]: "rows (fst (FlushIfFull full st batch)) = rows st"
  by (simp add: FlushIfFull_def)

lemma scan_rows_fold:
  "scan_rows ex rs m c = (m', c', None) \<Longrightarrow>
     m' = fold (apply_row ex) rs m \<and> c' = c + length rs"
proof (induction rs arbitrary: m c)
  case Nil
  then show ?case by simp
next
  case (Cons r rs)
  obtain key val where r: "r = (key, val)" by (cases r)
  from Cons.prems obtain tk b pk where ex: "ex key = Inr (tk, b, pk)"
    by (auto simp: r split: sum.splits)
  let ?m1 = "if length val = 0 then m(pk := None) else m(pk \<mapsto> b)"
  have "scan_rows ex rs ?m1 (c + 1) = (m', c', None)"
    using Cons.prems by (simp add: r ex)
  from Cons.IH [OF this] have "m' = fold (apply_row ex) rs ?m1" "c' = c + 1 + length rs"
    by simp_all
  moreover have "apply_row ex r m = ?m1" by (simp add: apply_row_def r ex)
  ultimately show ?case by simp
qed

lemma index_table_success:
  assumes ok: "index_table env (T, N) (fdb, batch) = ((fdb', batch'), None)"
  obtains S snapshot where
    "load_index (fst (FlushIfFull (batch_full env) (store fdb) batch)) (idxCache fdb) T N = Inr S"
    "MarshalBinary (built_index env (store fdb) T N S)
       (map_range env (Map (built_index env (store fdb) T N S))) T = Inr snapshot"
    "store fdb' = fst (FlushIfFull (batch_full env) (store fdb) batch)"
    "batch' = snd (FlushIfFull (batch_full env) (store fdb) batch)
                @ [(T @ '':'' @ HexRevBlockNum N, snapshot)]"
    "lastIndexes (idxCache fdb') = (lastIndexes (idxCache fdb))(T \<mapsto> built_index env (store fdb) T N S)"
    "lastCounters (idxCache fdb') = (lastCounters (idxCache fdb))(T \<mapsto> 0)"
    "scheduleIndexing (idxCache fdb') = (scheduleIndexing (idxCache fdb))(T := None)"
proof -
  let ?st = "fst (FlushIfFull (batch_full env) (store fdb) batch)"
  let ?batch0 = "snd (FlushIfFull (batch_full env) (store fdb) batch)"
  have rows: "rows ?st = rows (store fdb)" by simp
  obtain S where S: "load_index ?st (idxCache fdb) T N = Inr S"
    using ok
    by (cases "load_index ?st (idxCache fdb) T N") (simp_all add: index_table_def Let_def)
  let ?first = "T @ '':'' @ HexBlockNum (AtBlockNum S + 1)"
  let ?last = "T @ '':'' @ HexBlockNum (N + 1)"
  have scanned': "ScanTabletRows ?st ?first ?last = ScanTabletRows (store fdb) ?first ?last"
    by (simp add: ScanTabletRows_def)
  let ?scanned = "ScanTabletRows (store fdb) ?first ?last"
  obtain m c se where sc: "scan_rows (explodeWritableRowKey env) (ScanTabletRows ?st ?first ?last) (Map S) 0 = (m, c, se)"
    by (cases "scan_rows (explodeWritableRowKey env) (ScanTabletRows ?st ?first ?last) (Map S) 0")
  have se: "se = None"
    using ok S sc by (cases se) (simp_all add: index_table_def Let_def)
  have sc': "scan_rows (explodeWritableRowKey env) ?scanned (Map S) 0 = (m, c, None)"
    using sc se unfolding scanned' by simp
  have mc: "m = fold (apply_row (explodeWritableRowKey env)) ?scanned (Map S)" "c = length ?scanned"
    using scan_rows_fold [OF sc'] by simp_all
  define idx' where "idx' = S\<lparr>Map := m, AtBlockNum := N, Squelched := of_nat c\<rparr>"
  have idx'_eq: "idx' = built_index env (store fdb) T N S"
    by (simp add: idx'_def mc built_index_def Let_def)
  have Mi: "Map idx' = m" by (simp add: idx'_def)
  obtain snapshot where mb: "MarshalBinary (S\<lparr>Map := m, AtBlockNum := N, Squelched := of_nat c\<rparr>) (map_range env m) T = Inr snapshot"
    using ok S sc se
    by (cases "MarshalBinary (S\<lparr>Map := m, AtBlockNum := N, Squelched := of_nat c\<rparr>) (map_range env m) T")
      (simp_all add: index_table_def Let_def)
  have res: "fdb' = fdb\<lparr>store := ?st,
                idxCache := (idxCache fdb)\<lparr>lastIndexes := (lastIndexes (idxCache fdb))(T \<mapsto> idx'),
                               lastCounters := (lastCounters (idxCache fdb))(T \<mapsto> 0),
                               scheduleIndexing := (scheduleIndexing (idxCache fdb))(T := None)\<rparr>\<rparr>"
      and b': "batch' = ?batch0 @ [(T @ '':'' @ HexRevBlockNum N, snapshot)]"
    using ok S sc se mb
    by (auto simp add: index_table_def Let_def idx'_def CacheIndex_def ResetCounter_def
        SetIndex_def GetIndex_def)
  have mb': "MarshalBinary idx' (map_range env (Map idx')) T = Inr snapshot"
    using mb by (simp add: idx'_def)
  show thesis
  proof (rule that [of S snapshot])
    show "load_index ?st (idxCache fdb) T N = Inr S" by (rule S)
    show "MarshalBinary (built_index env (store fdb) T N S)
       (map_range env (Map (built_index env (store fdb) T N S))) T = Inr snapshot"
      using mb' by (simp add: idx'_eq)
    show "store fdb' = ?st" by (simp add: res)
    show "batch' = ?batch0 @ [(T @ '':'' @ HexRevBlockNum N, snapshot)]" by (rule b')
    show "lastIndexes (idxCache fdb') = (lastIndexes (idxCache fdb))(T \<mapsto> built_index env (store fdb) T N S)"
      by (simp add: res idx'_eq)
    show "lastCounters (idxCache fdb') = (lastCounters (idxCache fdb))(T \<mapsto> 0)"
      by (simp add: res)
    show "scheduleIndexing (idxCache fdb') = (scheduleIndexing (idxCache fdb))(T := None)"
      by (simp add: res)
  qed
qed

lemma HexBlockNum_less: "(HexBlockNum a < HexBlockNum b) = (a < b)"
proof -
  have "unat a < 16 ^ 8" "unat b < 16 ^ 8"
    using unsigned_less [of a, where 'a = nat] unsigned_less [of b, where 'a = nat] by simp_all
  then show ?thesis by (simp add: HexBlockNum_def fmt_hex_less word_less_nat_alt)
qed

lemma HexBlockNum_le: "(HexBlockNum a \<le> HexBlockNum b) = (a \<le> b)"
  using HexBlockNum_less [of b a] by (simp add: not_less [symmetric])

lemma length_HexBlockNum [simp]: "length (HexBlockNum b) = 8"
  by (simp add: HexBlockNum_def)

lemma row_key_in_range:
  "(T @ '':'' @ HexBlockNum lo \<le> T @ '':'' @ HexBlockNum b @ rest
      \<and> T @ '':'' @ HexBlockNum b @ rest < T @ '':'' @ HexBlockNum hi)
     = (lo \<le> b \<and> b < hi)"
proof -
  have up: "(HexBlockNum b @ rest < HexBlockNum hi) = (b < hi)"
    using less_append_same_length [of "HexBlockNum b" "HexBlockNum hi" rest "[]"]
    by (simp add: HexBlockNum_less)
  have "(HexBlockNum b @ rest < HexBlockNum lo) = (b < lo)"
    using less_append_same_length [of "HexBlockNum b" "HexBlockNum lo" rest "[]"]
    by (simp add: HexBlockNum_less)
  then have lo: "(HexBlockNum lo \<le> HexBlockNum b @ rest) = (lo \<le> b)"
    by (simp add: not_less [symmetric])
  have "(T @ '':'' @ HexBlockNum lo \<le> T @ '':'' @ HexBlockNum b @ rest)
          = (HexBlockNum lo \<le> HexBlockNum b @ rest)"
    using append_le_same_prefix [of "T @ '':''" "HexBlockNum lo" "HexBlockNum b @ rest"] by simp
  moreover have "(T @ '':'' @ HexBlockNum b @ rest < T @ '':'' @ HexBlockNum hi)
          = (HexBlockNum b @ rest < HexBlockNum hi)"
    using append_less_same_prefix [of "T @ '':''" "HexBlockNum b @ rest" "HexBlockNum hi"] by simp
  ultimately show ?thesis by (simp only: up lo)
qed

lemma unat_succ_u32:
  fixes x :: u32
  assumes "x \<noteq> 0xFFFFFFFF"
  shows "unat (x + 1) = unat x + 1"
proof -
  have "unat x \<noteq> unat (0xFFFFFFFF :: u32)" using assms by (simp add: word_unat_eq_iff)
  moreover have "unat x < 2 ^ 32" using unsigned_less [of x, where 'a = nat] by simp
  ultimately have "unat x + 1 < 2 ^ 32" by simp
  then show ?thesis by (simp add: unat_word_ariths)
qed

lemma block_range_no_wrap:
  fixes at N b :: u32
  assumes "at \<noteq> 0xFFFFFFFF" and "N \<noteq> 0xFFFFFFFF"
  shows "(at + 1 \<le> b \<and> b < N + 1) = (at < b \<and> b \<le> N)"
  using unat_succ_u32 [OF assms(1)] unat_succ_u32 [OF assms(2)]
  by (auto simp: word_le_nat_alt word_less_nat_alt)

lemma load_index_cases:
  "load_index st cache T N = Inr S \<Longrightarrow>
     GetIndex cache T = Some S
     \<or> GetIndex cache T = None \<and> getIndex st T N = Inr (Some S)
     \<or> GetIndex cache T = None \<and> getIndex st T N = Inr None \<and> S = NewTableIndex"
  by (auto simp: load_index_def split: option.splits sum.splits)

lemma ScanTabletRows_set:
  "((key, v) \<in> set (ScanTabletRows st lo hi)) = ((key, v) \<in> set (rows st) \<and> lo \<le> key \<and> key < hi)"
  by (auto simp: ScanTabletRows_def)

text \<open>
  Claim C6, as amended. When the loop body of \<open>IndexTables\<close> for tablet \<open>T\<close> scheduled at
  block \<open>N\<close> succeeds, it started from the index \<open>S\<close> in the cache if there was one,
  otherwise from the snapshot \<open>getIndex\<close> loads from the store for \<open>N\<close>, otherwise from an
  empty index; it scanned exactly the rows with key from \<open>T:hex(S.at_block + 1)\<close> up to, not
  including, \<open>T:hex(N + 1)\<close>, which, when neither block number is the largest
  \<^verbatim>\<open>uint32\<close>, are the stored rows of \<open>T\<close> at blocks \<open>S.at_block + 1\<close> through \<open>N\<close> inclusive;
  it set \<open>map[primary_key] = block_num\<close> for each scanned row with a value and deleted
  \<open>map[primary_key]\<close> for each with an empty value, in scan order; and it finished with
  \<open>AtBlockNum = N\<close> and \<open>Squelched\<close> the number of rows scanned (as a \<^verbatim>\<open>uint32\<close>), cached
  that index and queued its serialization under the key \<open>T:hex_rev(N)\<close>.
\<close>

theorem IndexTables_build:
  assumes "index_table env (T, N) (fdb, batch) = ((fdb', batch'), None)"
  shows "\<exists>S scanned idx'.
           (GetIndex (idxCache fdb) T = Some S
            \<or> GetIndex (idxCache fdb) T = None
                \<and> getIndex (fst (FlushIfFull (batch_full env) (store fdb) batch)) T N = Inr (Some S)
            \<or> GetIndex (idxCache fdb) T = None
                \<and> getIndex (fst (FlushIfFull (batch_full env) (store fdb) batch)) T N = Inr None
                \<and> S = NewTableIndex)
         \<and> scanned = ScanTabletRows (store fdb)
                        (T @ '':'' @ HexBlockNum (AtBlockNum S + 1)) (T @ '':'' @ HexBlockNum (N + 1))
         \<and> (AtBlockNum S \<noteq> 0xFFFFFFFF \<and> N \<noteq> 0xFFFFFFFF \<longrightarrow>
              (\<forall>b rest v. ((T @ '':'' @ HexBlockNum b @ rest, v) \<in> set scanned)
                 = ((T @ '':'' @ HexBlockNum b @ rest, v) \<in> set (rows (store fdb))
                    \<and> AtBlockNum S < b \<and> b \<le> N)))
         \<and> GetIndex (idxCache fdb') T = Some idx'
         \<and> AtBlockNum idx' = N
         \<and> Squelched idx' = of_nat (length scanned)
         \<and> Map idx' = fold (apply_row (explodeWritableRowKey env)) scanned (Map S)
         \<and> (\<exists>snapshot. MarshalBinary idx' (map_range env (Map idx')) T = Inr snapshot
               \<and> batch' = snd (FlushIfFull (batch_full env) (store fdb) batch)
                             @ [(T @ '':'' @ HexRevBlockNum N, snapshot)])"
proof -
  from assms obtain S snapshot where
    ld: "load_index (fst (FlushIfFull (batch_full env) (store fdb) batch)) (idxCache fdb) T N = Inr S"
    and mb: "MarshalBinary (built_index env (store fdb) T N S)
       (map_range env (Map (built_index env (store fdb) T N S))) T = Inr snapshot"
    and b': "batch' = snd (FlushIfFull (batch_full env) (store fdb) batch)
                       @ [(T @ '':'' @ HexRevBlockNum N, snapshot)]"
    and li: "lastIndexes (idxCache fdb') = (lastIndexes (idxCache fdb))(T \<mapsto> built_index env (store fdb) T N S)"
    by (rule index_table_success)
  define scanned where "scanned = ScanTabletRows (store fdb)
      (T @ '':'' @ HexBlockNum (AtBlockNum S + 1)) (T @ '':'' @ HexBlockNum (N + 1))"
  define idx' where "idx' = built_index env (store fdb) T N S"
  have rng: "((T @ '':'' @ HexBlockNum b @ rest, v) \<in> set scanned)
                 = ((T @ '':'' @ HexBlockNum b @ rest, v) \<in> set (rows (store fdb))
                    \<and> AtBlockNum S < b \<and> b \<le> N)"
    if "AtBlockNum S \<noteq> 0xFFFFFFFF" "N \<noteq> 0xFFFFFFFF" for b rest v
    unfolding scanned_def ScanTabletRows_set row_key_in_range
    using block_range_no_wrap [OF that] by blast
  have "GetIndex (idxCache fdb') T = Some idx'" by (simp add: GetIndex_def li idx'_def)
  moreover have "AtBlockNum idx' = N" "Squelched idx' = of_nat (length scanned)"
    "Map idx' = fold (apply_row (explodeWritableRowKey env)) scanned (Map S)"
    by (simp_all add: idx'_def built_index_def Let_def scanned_def)
  moreover have "\<exists>snapshot. MarshalBinary idx' (map_range env (Map idx')) T = Inr snapshot
               \<and> batch' = snd (FlushIfFull (batch_full env) (store fdb) batch)
                             @ [(T @ '':'' @ HexRevBlockNum N, snapshot)]"
    using mb b' by (auto simp: idx'_def)
  ultimately show ?thesis
    using load_index_cases [OF ld] rng scanned_def by blast
qed

lemma index_table_cache_effect:
  assumes "index_table env (T, N) (fdb, batch) = ((fdb', batch'), None)"
  shows "\<exists>idx'. AtBlockNum idx' = N
           \<and> lastIndexes (idxCache fdb') = (lastIndexes (idxCache fdb))(T \<mapsto> idx')
           \<and> lastCounters (idxCache fdb') = (lastCounters (idxCache fdb))(T \<mapsto> 0)
           \<and> scheduleIndexing (idxCache fdb') = (scheduleIndexing (idxCache fdb))(T := None)"
proof -
  from assms obtain S where
    rest: "lastIndexes (idxCache fdb') = (lastIndexes (idxCache fdb))(T \<mapsto> built_index env (store fdb) T N S)"
      "lastCounters (idxCache fdb') = (lastCounters (idxCache fdb))(T \<mapsto> 0)"
      "scheduleIndexing (idxCache fdb') = (scheduleIndexing (idxCache fdb))(T := None)"
    by (rule index_table_success)
  have "AtBlockNum (built_index env (store fdb) T N S) = N" by (simp add: built_index_def Let_def)
  then show ?thesis using rest by blast
qed

lemma index_tables_loop_success:
  "index_tables_loop env sched (fdb, batch) = ((fdb', batch'), None) \<Longrightarrow>
   distinct (map fst sched) \<Longrightarrow>
     (\<forall>t. t \<notin> fst ` set sched \<longrightarrow>
            lastIndexes (idxCache fdb') t = lastIndexes (idxCache fdb) t
          \<and> lastCounters (idxCache fdb') t = lastCounters (idxCache fdb) t
          \<and> scheduleIndexing (idxCache fdb') t = scheduleIndexing (idxCache fdb) t)
   \<and> (\<forall>e\<in>set sched.
          scheduleIndexing (idxCache fdb') (fst e) = None
        \<and> lastCounters (idxCache fdb') (fst e) = Some 0
        \<and> (\<exists>idx s b s' b'.
              lastIndexes (idxCache fdb') (fst e) = Some idx
            \<and> AtBlockNum idx = snd e
            \<and> index_table env e (s, b) = ((s', b'), None)
            \<and> lastIndexes (idxCache s') (fst e) = Some idx))"
proof (induction sched arbitrary: fdb batch)
  case Nil
  then show ?case by simp
next
  case (Cons e rest)
  obtain T N where e: "e = (T, N)" by (cases e)
  obtain fdb1 batch1 where step: "index_table env (T, N) (fdb, batch) = ((fdb1, batch1), None)"
    and loop: "index_tables_loop env rest (fdb1, batch1) = ((fdb', batch'), None)"
    using Cons.prems(1)
    by (cases "index_table env (T, N) (fdb, batch)")
      (auto simp: e split: option.splits prod.splits)
  have dist: "distinct (map fst rest)" and Tnot: "T \<notin> fst ` set rest"
    using Cons.prems(2) by (simp_all add: e)
  note ih = Cons.IH [OF loop dist]
  from index_table_cache_effect [OF step] obtain idx' where
    a: "AtBlockNum idx' = N"
    and li: "lastIndexes (idxCache fdb1) = (lastIndexes (idxCache fdb))(T \<mapsto> idx')"
    and lc: "lastCounters (idxCache fdb1) = (lastCounters (idxCache fdb))(T \<mapsto> 0)"
    and ls: "scheduleIndexing (idxCache fdb1) = (scheduleIndexing (idxCache fdb))(T := None)"
    by blast
  have frame: "\<forall>t. t \<notin> fst ` set (e # rest) \<longrightarrow>
            lastIndexes (idxCache fdb') t = lastIndexes (idxCache fdb) t
          \<and> lastCounters (idxCache fdb') t = lastCounters (idxCache fdb) t
          \<and> scheduleIndexing (idxCache fdb') t = scheduleIndexing (idxCache fdb) t"
    using ih li lc ls by (simp add: e)
  have head: "scheduleIndexing (idxCache fdb') T = None
        \<and> lastCounters (idxCache fdb') T = Some 0
        \<and> (\<exists>idx s b s' b'.
              lastIndexes (idxCache fdb') T = Some idx
            \<and> AtBlockNum idx = N
            \<and> index_table env (T, N) (s, b) = ((s', b'), None)
            \<and> lastIndexes (idxCache s') T = Some idx)"
  proof -
    have "lastIndexes (idxCache fdb') T = Some idx'" "lastCounters (idxCache fdb') T = Some 0"
      "scheduleIndexing (idxCache fdb') T = None"
      using ih Tnot li lc ls by simp_all
    moreover have "lastIndexes (idxCache fdb1) T = Some idx'" by (simp add: li)
    ultimately show ?thesis using a step by blast
  qed
  have tail: "\<forall>e\<in>set rest.
          scheduleIndexing (idxCache fdb') (fst e) = None
        \<and> lastCounters (idxCache fdb') (fst e) = Some 0
        \<and> (\<exists>idx s b s' b'.
              lastIndexes (idxCache fdb') (fst e) = Some idx
            \<and> AtBlockNum idx = snd e
            \<and> index_table env e (s, b) = ((s', b'), None)
            \<and> lastIndexes (idxCache s') (fst e) = Some idx)"
    using ih by blast
  show ?case using frame head tail by (simp add: e)
qed

lemma IndexTables_cache:
  "IndexTables env sched fdb = (fdb', None) \<Longrightarrow>
     \<exists>fdb1 batch1. index_tables_loop env sched (fdb, []) = ((fdb1, batch1), None)
        \<and> idxCache fdb' = idxCache fdb1
        \<and> store fdb' = fst (Flush (store fdb1) batch1)"
  by (cases "index_tables_loop env sched (fdb, [])")
    (auto simp: IndexTables_def Flush_def split: prod.splits option.splits)

text \<open>
  Claim C10. Whenever \<open>IndexTables\<close> returns without error, the indexing schedule is empty
  and, for every table that was in the schedule at entry, the mutation counter is 0 and
  the index cache holds the index that the loop body built and cached for that table at
  its scheduled block.
\<close>

theorem IndexTables_success_state:
  assumes "range_of (scheduleIndexing (idxCache fdb)) sched"
    and "IndexTables env sched fdb = (fdb', None)"
  shows "scheduleIndexing (idxCache fdb') = Map.empty
       \<and> (\<forall>t\<in>dom (scheduleIndexing (idxCache fdb)).
            lastCounters (idxCache fdb') t = Some 0
          \<and> GetCount (idxCache fdb') t = 0
          \<and> (\<exists>idx s b s' b'.
                GetIndex (idxCache fdb') t = Some idx
              \<and> scheduleIndexing (idxCache fdb) t = Some (AtBlockNum idx)
              \<and> index_table env (t, AtBlockNum idx) (s, b) = ((s', b'), None)
              \<and> GetIndex (idxCache s') t = Some idx))"
proof -
  obtain fdb1 batch1 where loop: "index_tables_loop env sched (fdb, []) = ((fdb1, batch1), None)"
    and c: "idxCache fdb' = idxCache fdb1"
    using IndexTables_cache [OF assms(2)] by blast
  have dist: "distinct (map fst sched)" and mo: "map_of sched = scheduleIndexing (idxCache fdb)"
    using assms(1) by (simp_all add: range_of_def)
  note r = index_tables_loop_success [OF loop dist]
  have keys: "fst ` set sched = dom (scheduleIndexing (idxCache fdb))"
    using range_of_keys [OF assms(1)] .
  have empty: "scheduleIndexing (idxCache fdb') t = None" for t
  proof (cases "t \<in> fst ` set sched")
    case True
    then obtain e where "e \<in> set sched" "fst e = t" by auto
    then show ?thesis using r c by auto
  next
    case False
    then have "scheduleIndexing (idxCache fdb) t = None" using keys by auto
    then show ?thesis using r False c by simp
  qed
  have each: "lastCounters (idxCache fdb') t = Some 0
          \<and> GetCount (idxCache fdb') t = 0
          \<and> (\<exists>idx s b s' b'.
                GetIndex (idxCache fdb') t = Some idx
              \<and> scheduleIndexing (idxCache fdb) t = Some (AtBlockNum idx)
              \<and> index_table env (t, AtBlockNum idx) (s, b) = ((s', b'), None)
              \<and> GetIndex (idxCache s') t = Some idx)"
    if "t \<in> dom (scheduleIndexing (idxCache fdb))" for t
  proof -
    from that obtain N where N: "scheduleIndexing (idxCache fdb) t = Some N" by auto
    then have mem: "(t, N) \<in> set sched" using mo map_of_SomeD by metis
    from r mem obtain idx s b s' b' where
      "lastCounters (idxCache fdb1) t = Some 0"
      "lastIndexes (idxCache fdb1) t = Some idx" "AtBlockNum idx = N"
      "index_table env (t, N) (s, b) = ((s', b'), None)"
      "lastIndexes (idxCache s') t = Some idx"
      by fastforce
    then show ?thesis using N c by (auto simp: GetIndex_def GetCount_def)
  qed
  show ?thesis using empty each by (auto simp: fun_eq_iff)
qed


end
